theory Spec2Isabelle
  imports Main "HOL-Library.Word"
begin

unbundle bit_operations_syntax

section \<open>sic-watcher: a shallow embedding of \<^verbatim>\<open>src/sic-watcher.c\<close>\<close>

subsection \<open>Constants and types of the C program\<close>

text \<open>
  \<^verbatim>\<open>ino_t\<close> is a 64-bit unsigned integer and \<^verbatim>\<open>mode_t\<close> a 16-bit one on the
  platform the program is written for (macOS). \<^verbatim>\<open>MAX_SEEN\<close> is the program's own
  constant; \<^verbatim>\<open>PATH_MAX\<close>, \<^verbatim>\<open>EINTR\<close> and the \<^verbatim>\<open>S_IF...\<close> masks come from the
  system headers and carry their usual values.
\<close>

type_synonym ino_t = "64 word"
type_synonym mode_t = "16 word"

definition MAX_SEEN :: nat where
  "MAX_SEEN = 4096"

definition PATH_MAX :: nat where
  "PATH_MAX = 1024"

definition EINTR :: int where
  "EINTR = 4"

definition S_IFMT :: mode_t where
  "S_IFMT = 0xF000"

definition S_IFREG :: mode_t where
  "S_IFREG = 0x8000"

definition S_ISREG :: "mode_t \<Rightarrow> bool" where
  "S_ISREG m = (m AND S_IFMT = S_IFREG)"

text \<open>The two fields of \<^verbatim>\<open>struct stat\<close> that the program reads.\<close>

record stat_t =
  st_mode :: mode_t
  st_ino :: ino_t

text \<open>The type of a directory entry itself, as \<^verbatim>\<open>readdir\<close> knows it.\<close>

datatype d_type_t = DT_UNKNOWN | DT_FIFO | DT_CHR | DT_DIR | DT_BLK | DT_REG | DT_LNK | DT_SOCK

text \<open>
  One directory entry as a scan meets it: the name and type that \<^verbatim>\<open>readdir\<close> delivers,
  and the answer of \<^verbatim>\<open>stat\<close> on the path built from the name (\<open>None\<close> when \<^verbatim>\<open>stat\<close>
  returns non-zero). \<^verbatim>\<open>stat\<close> follows symbolic links: for an entry of type \<open>DT_LNK\<close>
  the answer describes the link's target. The program never reads \<open>d_type\<close>.
\<close>

record entry =
  d_name :: string
  d_type :: d_type_t
  stat_result :: "stat_t option"

text \<open>
  The two globals of the identity tracker: \<^verbatim>\<open>seen_inodes\<close> is a static array of
  \<^verbatim>\<open>MAX_SEEN\<close> cells, \<^verbatim>\<open>seen_count\<close> an \<^verbatim>\<open>int\<close> that only ever counts from
  zero up to \<^verbatim>\<open>MAX_SEEN\<close>.
\<close>

record tracker =
  seen_inodes :: "ino_t list"
  seen_count :: nat

definition init_tracker :: tracker where
  "init_tracker = \<lparr>seen_inodes = replicate MAX_SEEN 0, seen_count = 0\<rparr>"

text \<open>
  The process state: the tracker, the bytes written to standard output and to standard
  error, and the descriptors the process holds open. \<open>reported\<close> is a ghost log: one
  pair of inode and path for every pass through the reporting branch of
  \<^verbatim>\<open>scan_and_report\<close>.
\<close>

record pstate =
  seen :: tracker
  out :: string
  err :: string
  fds :: "int list"
  reported :: "(ino_t \<times> string) list"

definition init_state :: pstate where
  "init_state = \<lparr>seen = init_tracker, out = [], err = [], fds = [], reported = []\<rparr>"

subsection \<open>The identity tracker\<close>

text \<open>
  The \<^verbatim>\<open>for\<close> loop of \<^verbatim>\<open>is_seen\<close>, from index \<open>i\<close> on. The index stays below
  \<^verbatim>\<open>seen_count\<close>, which never exceeds the length of the array (see \<open>tracker_ok\<close>
  below), so every read is inside the array.
\<close>

function is_seen_from :: "nat \<Rightarrow> ino_t \<Rightarrow> tracker \<Rightarrow> bool" where
  "is_seen_from i inode t =
     (if i < seen_count t
      then (if seen_inodes t ! i = inode then True else is_seen_from (Suc i) inode t)
      else False)"
  by pat_completeness auto
termination
  by (relation "measure (\<lambda>(i, inode, t). seen_count t - i)") auto

declare is_seen_from.simps [simp del]

definition is_seen :: "ino_t \<Rightarrow> tracker \<Rightarrow> bool" where
  "is_seen inode t = is_seen_from 0 inode t"

text \<open>
  \<^verbatim>\<open>memmove(seen_inodes, seen_inodes + 1, (MAX_SEEN - 1) * sizeof(ino_t))\<close>: cells
  \<open>1 .. MAX_SEEN - 1\<close> are copied to cells \<open>0 .. MAX_SEEN - 2\<close>; the last cell keeps
  its value.
\<close>

definition memmove_down :: "ino_t list \<Rightarrow> ino_t list" where
  "memmove_down a = take (MAX_SEEN - 1) (drop 1 a) @ drop (MAX_SEEN - 1) a"

definition mark_seen :: "ino_t \<Rightarrow> tracker \<Rightarrow> tracker" where
  "mark_seen inode t =
     (if seen_count t < MAX_SEEN
      then t\<lparr>seen_inodes := (seen_inodes t)[seen_count t := inode],
             seen_count := Suc (seen_count t)\<rparr>
      else t\<lparr>seen_inodes := (memmove_down (seen_inodes t))[MAX_SEEN - 1 := inode]\<rparr>)"

text \<open>The tracker's two operations, as a caller may sequence them.\<close>

datatype tracker_op = Contains ino_t | Insert ino_t

fun apply_op :: "tracker_op \<Rightarrow> tracker \<Rightarrow> tracker" where
  "apply_op (Contains i) t = t"
| "apply_op (Insert i) t = mark_seen i t"

fun run_ops :: "tracker_op list \<Rightarrow> tracker \<Rightarrow> tracker" where
  "run_ops [] t = t"
| "run_ops (p # ps) t = run_ops ps (apply_op p t)"

text \<open>The live part of the array, oldest entry first, and the shape the array keeps.\<close>

definition contents :: "tracker \<Rightarrow> ino_t list" where
  "contents t = take (seen_count t) (seen_inodes t)"

definition tracker_ok :: "tracker \<Rightarrow> bool" where
  "tracker_ok t = (length (seen_inodes t) = MAX_SEEN \<and> seen_count t \<le> MAX_SEEN)"

subsection \<open>Scanning the directory\<close>

text \<open>\<^verbatim>\<open>entry->d_name[0] == '.'\<close>; the first byte of an empty name is the terminator.\<close>

definition dot_name :: "entry \<Rightarrow> bool" where
  "dot_name e = (case d_name e of [] \<Rightarrow> False | c # cs \<Rightarrow> c = CHR ''.'')"

text \<open>
  \<^verbatim>\<open>snprintf(fullpath, sizeof(fullpath), "%s/%s", dirpath, entry->d_name)\<close> into a
  buffer of \<^verbatim>\<open>PATH_MAX\<close> bytes: at most \<open>PATH_MAX - 1\<close> bytes and the terminator.
\<close>

definition snprintf_path :: "string \<Rightarrow> string \<Rightarrow> string" where
  "snprintf_path dirpath name = take (PATH_MAX - 1) (dirpath @ ''/'' @ name)"

text \<open>The byte that \<^verbatim>\<open>fputc\<close> writes after the path.\<close>

definition separator :: "bool \<Rightarrow> char" where
  "separator null_term = (if null_term then CHR 0x00 else CHR 0x0A)"

text \<open>
  The body of the \<^verbatim>\<open>while\<close> loop of \<^verbatim>\<open>scan_and_report\<close>, for one entry. The
  reporting branch inserts the inode, writes the path (\<^verbatim>\<open>fputs\<close>) and the separator
  (\<^verbatim>\<open>fputc\<close>), flushes, and counts. \<open>found\<close> is the C \<^verbatim>\<open>int\<close> counter, taken as an
  unbounded integer; \<^verbatim>\<open>main\<close> ignores the value returned.
\<close>

fun scan_entry :: "string \<Rightarrow> bool \<Rightarrow> entry \<Rightarrow> pstate \<times> int \<Rightarrow> pstate \<times> int" where
  "scan_entry dirpath null_term e (st, found) =
     (if dot_name e then (st, found)
      else let fullpath = snprintf_path dirpath (d_name e) in
        (case stat_result e of
           None \<Rightarrow> (st, found)
         | Some sb \<Rightarrow>
             if \<not> S_ISREG (st_mode sb) then (st, found)
             else if \<not> is_seen (st_ino sb) (seen st) then
               (st\<lparr>seen := mark_seen (st_ino sb) (seen st),
                   out := out st @ fullpath @ [separator null_term],
                   reported := reported st @ [(st_ino sb, fullpath)]\<rparr>, found + 1)
             else (st, found)))"

fun scan_loop :: "string \<Rightarrow> bool \<Rightarrow> entry list \<Rightarrow> pstate \<times> int \<Rightarrow> pstate \<times> int" where
  "scan_loop dirpath null_term [] sf = sf"
| "scan_loop dirpath null_term (e # es) sf =
     scan_loop dirpath null_term es (scan_entry dirpath null_term e sf)"

text \<open>
  \<^verbatim>\<open>scan_and_report\<close>; the directory argument is what \<^verbatim>\<open>opendir\<close> and the successive
  \<^verbatim>\<open>readdir\<close> calls deliver (\<open>None\<close> when \<^verbatim>\<open>opendir\<close> returns \<^verbatim>\<open>NULL\<close>).
\<close>

definition scan_and_report ::
  "string \<Rightarrow> bool \<Rightarrow> entry list option \<Rightarrow> pstate \<Rightarrow> pstate \<times> int" where
  "scan_and_report dirpath null_term dir st =
     (case dir of None \<Rightarrow> (st, 0) | Some es \<Rightarrow> scan_loop dirpath null_term es (st, 0))"

text \<open>The initial scan inside \<^verbatim>\<open>main\<close>: one entry, then the whole loop.\<close>

definition seed_entry :: "string \<Rightarrow> entry \<Rightarrow> pstate \<Rightarrow> pstate" where
  "seed_entry dirpath e st =
     (if dot_name e then st
      else (case stat_result e of
              None \<Rightarrow> st
            | Some sb \<Rightarrow>
                if S_ISREG (st_mode sb) then st\<lparr>seen := mark_seen (st_ino sb) (seen st)\<rparr>
                else st))"

fun seed_loop :: "string \<Rightarrow> entry list \<Rightarrow> pstate \<Rightarrow> pstate" where
  "seed_loop dirpath [] st = st"
| "seed_loop dirpath (e # es) st = seed_loop dirpath es (seed_entry dirpath e st)"

definition seed_scan :: "string \<Rightarrow> entry list option \<Rightarrow> pstate \<Rightarrow> pstate" where
  "seed_scan dirpath dir st = (case dir of None \<Rightarrow> st | Some es \<Rightarrow> seed_loop dirpath es st)"

text \<open>
  The entries that pass the three filters of either scan: the name does not begin with
  a dot, \<^verbatim>\<open>stat\<close> succeeds, and the mode it returns is that of a regular file.
\<close>

definition visible_regular :: "entry \<Rightarrow> bool" where
  "visible_regular e =
     (\<not> dot_name e \<and> (case stat_result e of None \<Rightarrow> False | Some sb \<Rightarrow> S_ISREG (st_mode sb)))"

subsection \<open>The main program\<close>

text \<open>
  How a run ends: the process exits with a status, or the inputs given to the model are
  used up while the process is still inside its event loop.
\<close>

datatype outcome = Exit int | Watching

definition usage_text :: "string \<Rightarrow> string" where
  "usage_text progname =
     ''Usage: '' @ progname @ '' [-0] <directory>'' @ [CHR 0x0A] @
     ''  -0    Null-terminated output'' @ [CHR 0x0A]"

definition usage :: "string \<Rightarrow> pstate \<Rightarrow> pstate \<times> outcome" where
  "usage progname st = (st\<lparr>err := err st @ usage_text progname\<rparr>, Exit 1)"

text \<open>
  The argument loop over \<^verbatim>\<open>argv[1..]\<close>, carrying \<^verbatim>\<open>null_term\<close> and \<^verbatim>\<open>dirpath\<close>;
  \<open>None\<close> is the call of \<^verbatim>\<open>usage\<close>, which does not return.
\<close>

fun parse_args :: "string list \<Rightarrow> bool \<times> string option \<Rightarrow> (bool \<times> string option) option" where
  "parse_args [] (null_term, dirpath) = Some (null_term, dirpath)"
| "parse_args (a # as) (null_term, dirpath) =
     (if a = ''-0'' then parse_args as (True, dirpath)
      else if (case a of [] \<Rightarrow> False | c # cs \<Rightarrow> c = CHR ''-'') then None
      else parse_args as (null_term, Some a))"

definition perror :: "string \<Rightarrow> string \<Rightarrow> pstate \<Rightarrow> pstate" where
  "perror s reason st = st\<lparr>err := err st @ s @ '': '' @ reason @ [CHR 0x0A]\<rparr>"

definition close_fd :: "int \<Rightarrow> pstate \<Rightarrow> pstate" where
  "close_fd fd st = st\<lparr>fds := removeAll fd (fds st)\<rparr>"

text \<open>
  What one turn of the event loop meets: \<^verbatim>\<open>g_running\<close> read as zero at the loop test,
  or \<^verbatim>\<open>kevent\<close> returning \<open>n\<close> and leaving \<open>errno\<close>, together with the directory a scan
  would then find.
\<close>

datatype loop_input = Signalled | Kevent int int "entry list option"

text \<open>
  The event loop. The boolean of the result says whether the loop was left (by the flag
  or by \<^verbatim>\<open>break\<close>); it is \<open>False\<close> when the inputs end with the loop still running.
\<close>

fun event_loop ::
  "string \<Rightarrow> bool \<Rightarrow> (int \<Rightarrow> string) \<Rightarrow> loop_input list \<Rightarrow> pstate \<Rightarrow> pstate \<times> bool" where
  "event_loop dirpath null_term errtext [] st = (st, False)"
| "event_loop dirpath null_term errtext (Signalled # rest) st = (st, True)"
| "event_loop dirpath null_term errtext (Kevent n errno dir # rest) st =
     (if n < 0 then
        (if errno = EINTR then event_loop dirpath null_term errtext rest st
         else (perror ''sic-watcher: kevent wait'' (errtext errno) st, True))
      else if n > 0 then
        event_loop dirpath null_term errtext rest
          (fst (scan_and_report dirpath null_term dir st))
      else event_loop dirpath null_term errtext rest st)"

text \<open>
  The environment of a run: the text \<^verbatim>\<open>strerror\<close> gives for an error number; the return
  value and \<^verbatim>\<open>errno\<close> of \<^verbatim>\<open>open\<close>, of \<^verbatim>\<open>kqueue\<close> and of the registering \<^verbatim>\<open>kevent\<close>;
  the directory as the initial scan finds it; the inputs of the event loop.
\<close>

record env =
  strerror :: "int \<Rightarrow> string"
  open_ret :: "int \<times> int"
  kqueue_ret :: "int \<times> int"
  register_ret :: "int \<times> int"
  seed_dir :: "entry list option"
  loop_inputs :: "loop_input list"

text \<open>\<^verbatim>\<open>main\<close> from the \<^verbatim>\<open>open\<close> call to its end.\<close>

definition run_watcher :: "string \<Rightarrow> bool \<Rightarrow> env \<Rightarrow> pstate \<Rightarrow> pstate \<times> outcome" where
  "run_watcher dirpath null_term ev st =
     (let dirfd = fst (open_ret ev) in
      if dirfd < 0 then
        (st\<lparr>err := err st @ ''sic-watcher: cannot open '' @ [CHR 0x27] @ dirpath @
               [CHR 0x27] @ '': '' @ strerror ev (snd (open_ret ev)) @ [CHR 0x0A]\<rparr>, Exit 1)
      else
        let st1 = st\<lparr>fds := dirfd # fds st\<rparr>; kq = fst (kqueue_ret ev) in
        if kq < 0 then
          (close_fd dirfd (perror ''sic-watcher: kqueue'' (strerror ev (snd (kqueue_ret ev))) st1),
           Exit 1)
        else
          let st2 = st1\<lparr>fds := kq # fds st1\<rparr> in
          if fst (register_ret ev) < 0 then
            (close_fd dirfd (close_fd kq
               (perror ''sic-watcher: kevent register''
                  (strerror ev (snd (register_ret ev))) st2)), Exit 1)
          else
            let st3 = seed_scan dirpath (seed_dir ev) st2 in
            (case event_loop dirpath null_term (strerror ev) (loop_inputs ev) st3 of
               (st4, False) \<Rightarrow> (st4, Watching)
             | (st4, True) \<Rightarrow> (close_fd dirfd (close_fd kq st4), Exit 0)))"

definition main :: "string \<Rightarrow> string list \<Rightarrow> env \<Rightarrow> pstate \<times> outcome" where
  "main progname args ev =
     (case parse_args args (False, None) of
        None \<Rightarrow> usage progname init_state
      | Some (null_term, None) \<Rightarrow> usage progname init_state
      | Some (null_term, Some dirpath) \<Rightarrow> run_watcher dirpath null_term ev init_state)"

text \<open>
  Vocabulary for the command line: an argument other than \<^verbatim>\<open>-0\<close> that begins with a
  dash, and an argument that does not begin with a dash.
\<close>

definition unrecognised :: "string \<Rightarrow> bool" where
  "unrecognised a = (a \<noteq> ''-0'' \<and> (case a of [] \<Rightarrow> False | c # cs \<Rightarrow> c = CHR ''-''))"

definition positional :: "string \<Rightarrow> bool" where
  "positional a = (case a of [] \<Rightarrow> True | c # cs \<Rightarrow> c \<noteq> CHR ''-'')"

subsection \<open>Invariants of a run\<close>

text \<open>Standard output is the ghost log, each path followed by the separator.\<close>

definition out_matches_log :: "bool \<Rightarrow> pstate \<Rightarrow> bool" where
  "out_matches_log nt st =
     (out st = concat (map (\<lambda>r. snd r @ [separator nt]) (reported st)))"

text \<open>
  What the tracker remembers of the reports: the inodes of the last \<open>MAX_SEEN\<close> reports
  (of all reports, while there are fewer) are the newest entries of the tracker, in
  order; and two reports of one inode are more than \<open>MAX_SEEN\<close> reports apart.
\<close>

definition recent_reports_inv :: "pstate \<Rightarrow> bool" where
  "recent_reports_inv st =
     (tracker_ok (seen st) \<and>
      (\<exists>pre. contents (seen st) =
         pre @ drop (length (reported st) - MAX_SEEN) (map fst (reported st))) \<and>
      (\<forall>i j. i < j \<and> j < length (reported st) \<and>
         fst (reported st ! i) = fst (reported st ! j) \<longrightarrow> MAX_SEEN < j - i))"

subsection \<open>Concrete directories and runs\<close>

text \<open>A tracker whose array is full: the inodes 1 to 4096, oldest first.\<close>

definition full_tracker :: tracker where
  "full_tracker = \<lparr>seen_inodes = map word_of_nat [1..<4097], seen_count = 4096\<rparr>"

text \<open>The text of \<^verbatim>\<open>strerror\<close> for the error numbers used below.\<close>

definition demo_strerror :: "int \<Rightarrow> string" where
  "demo_strerror e =
     (if e = 2 then ''No such file or directory''
      else if e = 12 then ''Cannot allocate memory''
      else ''Unknown error'')"

text \<open>
  Entries of four kinds: a regular file (mode \<^verbatim>\<open>0100644\<close>), a subdirectory (mode
  \<^verbatim>\<open>040755\<close>), a name whose file is gone by the time \<^verbatim>\<open>stat\<close> runs, and a symbolic
  link whose target is a regular file, so that \<^verbatim>\<open>stat\<close> answers with the target's mode
  and inode.
\<close>

definition regular_file :: "string \<Rightarrow> ino_t \<Rightarrow> entry" where
  "regular_file name ino =
     \<lparr>d_name = name, d_type = DT_REG, stat_result = Some \<lparr>st_mode = 0x81A4, st_ino = ino\<rparr>\<rparr>"

definition subdirectory :: "string \<Rightarrow> ino_t \<Rightarrow> entry" where
  "subdirectory name ino =
     \<lparr>d_name = name, d_type = DT_DIR, stat_result = Some \<lparr>st_mode = 0x41ED, st_ino = ino\<rparr>\<rparr>"

definition vanished_file :: "string \<Rightarrow> entry" where
  "vanished_file name = \<lparr>d_name = name, d_type = DT_REG, stat_result = None\<rparr>"

definition symlink_to_file :: "string \<Rightarrow> ino_t \<Rightarrow> entry" where
  "symlink_to_file name ino =
     \<lparr>d_name = name, d_type = DT_LNK, stat_result = Some \<lparr>st_mode = 0x81A4, st_ino = ino\<rparr>\<rparr>"

text \<open>A small directory, and a run that scans it twice before the signal arrives.\<close>

definition demo_dir :: "entry list" where
  "demo_dir = [regular_file ''old.png'' 11, regular_file ''a.png'' 12,
     regular_file ''.hidden'' 13, subdirectory ''sub'' 14, vanished_file ''tmp.png'',
     regular_file ''b.png'' 15]"

definition demo_env :: env where
  "demo_env = \<lparr>strerror = demo_strerror, open_ret = (3, 0), kqueue_ret = (4, 0),
     register_ret = (0, 0), seed_dir = Some [regular_file ''old.png'' 11],
     loop_inputs = [Kevent 1 0 (Some demo_dir), Kevent 0 0 None, Kevent 1 0 (Some demo_dir),
       Signalled]\<rparr>"

text \<open>The same run with \<^verbatim>\<open>open\<close> failing (\<^verbatim>\<open>ENOENT\<close>).\<close>

definition noopen_env :: env where
  "noopen_env = demo_env\<lparr>open_ret := (- 1, 2)\<rparr>"

text \<open>
  A run in which the wait times out once, is interrupted once (\<^verbatim>\<open>EINTR\<close>), and then
  fails with \<^verbatim>\<open>ENOMEM\<close>.
\<close>

definition fatal_wait_env :: env where
  "fatal_wait_env = demo_env\<lparr>loop_inputs :=
     [Kevent 0 0 None, Kevent (- 1) 4 None, Kevent (- 1) 12 None]\<rparr>"

text \<open>A directory that holds two names (hard links) of one file at startup.\<close>

definition hardlink_dir :: "entry list" where
  "hardlink_dir = [regular_file ''a.png'' 77, regular_file ''b.png'' 77]"

text \<open>
  Runs in which the first notification finds the directory unopenable: one that ends
  there, still in the loop, and one in which a second notification follows, and then
  the signal.
\<close>

definition lone_failure_env :: env where
  "lone_failure_env = demo_env\<lparr>loop_inputs := [Kevent 1 0 None]\<rparr>"

definition retry_env :: env where
  "retry_env = demo_env\<lparr>loop_inputs :=
     [Kevent 1 0 None, Kevent 1 0 (Some demo_dir), Signalled]\<rparr>"

text \<open>A run that is still watching after one scan.\<close>

definition watching_env :: env where
  "watching_env = demo_env\<lparr>loop_inputs := [Kevent 1 0 (Some demo_dir)]\<rparr>"

text \<open>
  A directory of 4097 regular files \<^verbatim>\<open>shot0.png\<close>, \<^verbatim>\<open>shot1.png\<close>, ... with the
  inodes 1000, 1001, ..., and a run that starts on the empty directory and then scans
  this directory twice.
\<close>

fun decimal :: "nat \<Rightarrow> string" where
  "decimal n = (if n < 10 then [char_of (48 + n)]
                else decimal (n div 10) @ [char_of (48 + n mod 10)])"

declare decimal.simps [simp del]

definition file_ino :: "nat \<Rightarrow> ino_t" where
  "file_ino n = word_of_nat (1000 + n)"

definition numbered_file :: "nat \<Rightarrow> entry" where
  "numbered_file n = regular_file (''shot'' @ decimal n @ ''.png'') (file_ino n)"

definition many_files :: "entry list" where
  "many_files = map numbered_file [0..<4096] @ [numbered_file 4096]"

definition overflow_env :: env where
  "overflow_env = demo_env\<lparr>seed_dir := Some [],
     loop_inputs := [Kevent 1 0 (Some many_files), Kevent 1 0 (Some many_files), Signalled]\<rparr>"

section \<open>Properties of the tracker\<close>

lemma is_seen_from_iff:
  "is_seen_from i inode t = (\<exists>j. i \<le> j \<and> j < seen_count t \<and> seen_inodes t ! j = inode)"
proof (induction i inode t rule: is_seen_from.induct)
  case (1 i inode t)
  show ?case
  proof (cases "i < seen_count t")
    case False
    then show ?thesis by (simp add: is_seen_from.simps [of i])
  next
    case lt: True
    show ?thesis
    proof (cases "seen_inodes t ! i = inode")
      case True
      with lt show ?thesis by (auto simp: is_seen_from.simps [of i])
    next
      case False
      have "(\<exists>j. Suc i \<le> j \<and> j < seen_count t \<and> seen_inodes t ! j = inode) =
            (\<exists>j. i \<le> j \<and> j < seen_count t \<and> seen_inodes t ! j = inode)"
        using False by (metis Suc_leD Suc_leI le_neq_implies_less)
      with lt False "1.IH" show ?thesis by (simp add: is_seen_from.simps [of i])
    qed
  qed
qed

lemma is_seen_iff:
  assumes "tracker_ok t"
  shows "is_seen inode t = (inode \<in> set (contents t))"
proof -
  have "seen_count t \<le> length (seen_inodes t)"
    using assms by (simp add: tracker_ok_def)
  then show ?thesis
    by (auto simp: is_seen_def is_seen_from_iff contents_def in_set_conv_nth)
qed

lemma tracker_ok_init: "tracker_ok init_tracker"
  by (simp add: tracker_ok_def init_tracker_def)

lemma contents_init: "contents init_tracker = []"
  by (simp add: contents_def init_tracker_def)

lemma tracker_ok_mark_seen: "tracker_ok t \<Longrightarrow> tracker_ok (mark_seen i t)"
  by (simp add: tracker_ok_def mark_seen_def memmove_down_def MAX_SEEN_def)

lemma MAX_SEEN_pos: "0 < MAX_SEEN"
  by (simp add: MAX_SEEN_def)

lemma length_contents: "tracker_ok t \<Longrightarrow> length (contents t) = seen_count t"
  by (simp add: contents_def tracker_ok_def)

lemma contents_mark_seen_count:
  assumes "tracker_ok t"
  shows "contents (mark_seen i t) =
           (if seen_count t < MAX_SEEN then contents t @ [i] else tl (contents t) @ [i])"
proof (cases "seen_count t < MAX_SEEN")
  case True
  with assms show ?thesis
    by (simp add: contents_def mark_seen_def tracker_ok_def take_Suc_conv_app_nth)
next
  case False
  with assms have full: "seen_count t = MAX_SEEN" and len: "length (seen_inodes t) = MAX_SEEN"
    by (simp_all add: tracker_ok_def)
  obtain x xs where a: "seen_inodes t = x # xs"
    using len MAX_SEEN_pos by (cases "seen_inodes t") auto
  with len have lxs: "length xs = MAX_SEEN - 1" by simp
  define d where "d = drop (MAX_SEEN - 1) (x # xs)"
  have "length d = Suc 0"
    using lxs MAX_SEEN_pos by (simp add: d_def)
  then obtain y where "d = [y]"
    by (auto simp: length_Suc_conv)
  then have y: "drop (MAX_SEEN - 1) (x # xs) = [y]"
    by (simp add: d_def)
  have md: "memmove_down (x # xs) = xs @ [y]"
    using lxs y by (simp add: memmove_down_def)
  have "(xs @ [y])[length xs := i] = xs @ [i]"
    by (rule list_update_length)
  then have upd: "(memmove_down (x # xs))[MAX_SEEN - 1 := i] = xs @ [i]"
    using md lxs by simp
  have new: "take MAX_SEEN (xs @ [i]) = xs @ [i]"
    using lxs MAX_SEEN_pos by simp
  have "take MAX_SEEN (x # xs) = x # xs"
    using lxs MAX_SEEN_pos by simp
  then have old: "contents t = x # xs"
    using full a by (simp add: contents_def)
  have "contents (mark_seen i t) = xs @ [i]"
    using False full a upd new by (simp add: contents_def mark_seen_def)
  with old False show ?thesis by simp
qed

lemma contents_mark_seen:
  assumes "tracker_ok t"
  shows "contents (mark_seen i t) =
           (if length (contents t) < MAX_SEEN then contents t @ [i] else tl (contents t) @ [i])"
  using assms by (simp add: contents_mark_seen_count length_contents)

lemma tracker_ok_apply_op: "tracker_ok t \<Longrightarrow> tracker_ok (apply_op p t)"
  by (cases p) (simp_all add: tracker_ok_mark_seen)

lemma tracker_ok_run_ops: "tracker_ok t \<Longrightarrow> tracker_ok (run_ops ps t)"
  by (induction ps arbitrary: t) (simp_all add: tracker_ok_apply_op)

lemma tracker_ok_full: "tracker_ok full_tracker"
  by (simp add: tracker_ok_def full_tracker_def MAX_SEEN_def)

lemma length_contents_full: "length (contents full_tracker) = 4096"
  using tracker_ok_full by (simp add: length_contents) (simp add: full_tracker_def)

text \<open>
  C6. \<^verbatim>\<open>mark_seen\<close> appends the identity to the live entries. When the tracker already
  holds \<open>MAX_SEEN\<close> entries, the oldest entry (the head) is dropped, the other
  \<open>MAX_SEEN - 1\<close> entries keep their order, the identity becomes the newest entry, and
  the number of entries stays \<open>MAX_SEEN\<close>. In both cases the identity is found by
  \<^verbatim>\<open>is_seen\<close> afterwards.
\<close>

theorem mark_seen_fifo:
  assumes "tracker_ok t"
  shows "contents (mark_seen i t) =
           (if length (contents t) < MAX_SEEN then contents t @ [i]
            else tl (contents t) @ [i]) \<and>
         length (contents (mark_seen i t)) =
           (if length (contents t) < MAX_SEEN then Suc (length (contents t)) else MAX_SEEN) \<and>
         is_seen i (mark_seen i t) \<and>
         MAX_SEEN = 4096"
proof -
  have c: "contents (mark_seen i t) =
           (if length (contents t) < MAX_SEEN then contents t @ [i]
            else tl (contents t) @ [i])"
    using assms by (rule contents_mark_seen)
  have ok: "tracker_ok (mark_seen i t)"
    using assms by (rule tracker_ok_mark_seen)
  have l: "length (contents t) \<le> MAX_SEEN"
    using assms by (simp add: length_contents tracker_ok_def)
  have "length (contents (mark_seen i t)) =
           (if length (contents t) < MAX_SEEN then Suc (length (contents t)) else MAX_SEEN)"
    using l MAX_SEEN_pos by (auto simp: c)
  moreover have "is_seen i (mark_seen i t)"
    using ok by (simp add: is_seen_iff c)
  ultimately show ?thesis
    using c by (simp add: MAX_SEEN_def)
qed

theorem mark_seen_fifo_witness:
  "tracker_ok init_tracker \<and> contents (mark_seen 7 init_tracker) = [7] \<and>
   tracker_ok full_tracker \<and> length (contents full_tracker) = 4096 \<and>
   contents (mark_seen 7 full_tracker) = tl (contents full_tracker) @ [7] \<and>
   length (contents (mark_seen 7 full_tracker)) = 4096 \<and>
   is_seen 7 (mark_seen 7 full_tracker)"
proof -
  have a: "contents (mark_seen 7 init_tracker) = [7]"
    using mark_seen_fifo [OF tracker_ok_init, of 7] MAX_SEEN_pos
    by (simp add: contents_init)
  have full: "\<not> length (contents full_tracker) < MAX_SEEN"
    by (simp add: length_contents_full MAX_SEEN_def)
  have b: "contents (mark_seen 7 full_tracker) = tl (contents full_tracker) @ [7]"
    using mark_seen_fifo [OF tracker_ok_full, of 7] full by argo
  have c: "length (contents (mark_seen 7 full_tracker)) = 4096"
    using mark_seen_fifo [OF tracker_ok_full, of 7] full by argo
  have d: "is_seen 7 (mark_seen 7 full_tracker)"
    using mark_seen_fifo [OF tracker_ok_full, of 7] by blast
  from a b c d tracker_ok_init tracker_ok_full length_contents_full
  show ?thesis by blast
qed

section \<open>Properties of the scans\<close>

declare scan_entry.simps [simp del]

lemma S_ISREG_file: "S_ISREG 0x81A4"
  by (simp add: S_ISREG_def S_IFMT_def S_IFREG_def)

lemma S_ISREG_dir: "\<not> S_ISREG 0x41ED"
  by (simp add: S_ISREG_def S_IFMT_def S_IFREG_def)

lemmas run_defs = main_def run_watcher_def seed_scan_def seed_entry_def scan_and_report_def
  dot_name_def snprintf_path_def separator_def PATH_MAX_def usage_def usage_text_def perror_def
  close_fd_def init_state_def EINTR_def S_ISREG_file S_ISREG_dir scan_entry.simps

lemmas tracker_eval = is_seen_iff tracker_ok_mark_seen tracker_ok_init contents_mark_seen
  contents_init MAX_SEEN_def

lemmas entry_defs = regular_file_def subdirectory_def vanished_file_def symlink_to_file_def

lemma demo_run:
  "main ''sic-watcher'' [''-0'', ''D''] demo_env =
     (\<lparr>seen = mark_seen 15 (mark_seen 12 (mark_seen 11 init_tracker)),
       out = ''D/a.png'' @ [CHR 0x00] @ ''D/b.png'' @ [CHR 0x00], err = [], fds = [],
       reported = [(12, ''D/a.png''), (15, ''D/b.png'')]\<rparr>, Exit 0)"
  by (simp add: run_defs tracker_eval demo_env_def demo_dir_def entry_defs)

lemma demo_run_newline:
  "main ''sic-watcher'' [''D''] demo_env =
     (\<lparr>seen = mark_seen 15 (mark_seen 12 (mark_seen 11 init_tracker)),
       out = ''D/a.png'' @ [CHR 0x0A] @ ''D/b.png'' @ [CHR 0x0A], err = [], fds = [],
       reported = [(12, ''D/a.png''), (15, ''D/b.png'')]\<rparr>, Exit 0)"
  by (simp add: run_defs tracker_eval demo_env_def demo_dir_def entry_defs)

text \<open>The loop body either leaves the state alone or takes the reporting branch.\<close>

lemma scan_entry_cases:
  obtains (skip) "scan_entry d nt e (st, f) = (st, f)"
  | (report) sb where "\<not> dot_name e" and "stat_result e = Some sb"
      and "S_ISREG (st_mode sb)" and "\<not> is_seen (st_ino sb) (seen st)"
      and "scan_entry d nt e (st, f) =
             (st\<lparr>seen := mark_seen (st_ino sb) (seen st),
                 out := out st @ snprintf_path d (d_name e) @ [separator nt],
                 reported := reported st @ [(st_ino sb, snprintf_path d (d_name e))]\<rparr>, f + 1)"
proof (cases "visible_regular e \<and>
    (\<exists>sb. stat_result e = Some sb \<and> \<not> is_seen (st_ino sb) (seen st))")
  case True
  then obtain sb where sb: "stat_result e = Some sb" "\<not> is_seen (st_ino sb) (seen st)"
    by blast
  with True have vis: "\<not> dot_name e" "S_ISREG (st_mode sb)"
    by (simp_all add: visible_regular_def)
  show thesis
    by (rule report [of sb]) (use sb vis in \<open>simp_all add: Let_def scan_entry.simps\<close>)
next
  case False
  then have "scan_entry d nt e (st, f) = (st, f)"
    by (auto simp: visible_regular_def Let_def scan_entry.simps split: option.splits)
  then show thesis by (rule skip)
qed

lemma scan_entry_skip: "\<not> visible_regular e \<Longrightarrow> scan_entry d nt e sf = sf"
  by (cases sf) (auto simp: visible_regular_def Let_def scan_entry.simps split: option.splits)

lemma seed_entry_skip: "\<not> visible_regular e \<Longrightarrow> seed_entry d e st = st"
  by (auto simp: seed_entry_def visible_regular_def split: option.splits)

lemma scan_loop_filter:
  "scan_loop d nt (filter visible_regular es) sf = scan_loop d nt es sf"
  by (induction es arbitrary: sf) (simp_all add: scan_entry_skip)

lemma seed_loop_filter:
  "seed_loop d (filter visible_regular es) st = seed_loop d es st"
  by (induction es arbitrary: st) (simp_all add: seed_entry_skip)

lemma dot_not_visible: "dot_name e \<Longrightarrow> \<not> visible_regular e"
  by (simp add: visible_regular_def)

lemma scan_loop_filter_dot:
  "scan_loop d nt (filter (\<lambda>e. \<not> dot_name e) es) sf = scan_loop d nt es sf"
  by (induction es arbitrary: sf) (simp_all add: scan_entry_skip dot_not_visible)

lemma seed_loop_filter_dot:
  "seed_loop d (filter (\<lambda>e. \<not> dot_name e) es) st = seed_loop d es st"
  by (induction es arbitrary: st) (simp_all add: seed_entry_skip dot_not_visible)

lemma scan_loop_append:
  "scan_loop d nt (es @ es') sf = scan_loop d nt es' (scan_loop d nt es sf)"
  by (induction es arbitrary: sf) simp_all

text \<open>
  A property of the state that the loop body keeps, and that does not depend on the
  error stream, is kept by a whole scan and by the event loop.
\<close>

lemma scan_loop_preserves:
  assumes body: "\<And>e st f. P st \<Longrightarrow> P (fst (scan_entry d nt e (st, f)))"
    and "P (fst sf)"
  shows "P (fst (scan_loop d nt es sf))"
  using assms(2)
proof (induction es arbitrary: sf)
  case Nil
  then show ?case by simp
next
  case (Cons e es)
  obtain st f where sf: "sf = (st, f)" by (cases sf)
  with Cons.prems have "P (fst (scan_entry d nt e sf))"
    using body by simp
  then show ?case
    using Cons.IH by simp
qed

lemma scan_and_report_preserves:
  assumes body: "\<And>e st f. P st \<Longrightarrow> P (fst (scan_entry d nt e (st, f)))"
    and "P st"
  shows "P (fst (scan_and_report d nt dir st))"
proof (cases dir)
  case None
  with assms(2) show ?thesis by (simp add: scan_and_report_def)
next
  case (Some es)
  have "P (fst (scan_loop d nt es (st, 0)))"
    by (rule scan_loop_preserves [where P = P, OF body]) (simp_all add: assms(2))
  with Some show ?thesis by (simp add: scan_and_report_def)
qed

lemma event_loop_preserves:
  assumes body: "\<And>e st f. P st \<Longrightarrow> P (fst (scan_entry d nt e (st, f)))"
    and errs: "\<And>st x. P st \<Longrightarrow> P (st\<lparr>err := x\<rparr>)"
    and "P st"
  shows "P (fst (event_loop d nt errtext ins st))"
  using assms(3)
proof (induction ins arbitrary: st)
  case Nil
  then show ?case by simp
next
  case (Cons i ins)
  show ?case
  proof (cases i)
    case Signalled
    with Cons.prems show ?thesis by simp
  next
    case (Kevent n errno dir)
    have scan: "P (fst (scan_and_report d nt dir st))"
      by (rule scan_and_report_preserves [where P = P, OF body]) (simp_all add: Cons.prems)
    have fatal: "P (perror ''sic-watcher: kevent wait'' (errtext errno) st)"
      using errs [OF Cons.prems] by (simp add: perror_def)
    show ?thesis
      using Kevent scan fatal Cons.prems Cons.IH by simp
  qed
qed


text \<open>
  C8. An entry whose name begins with a dot changes nothing in either scan, whatever its
  type and whatever \<^verbatim>\<open>stat\<close> would say: the loop body of the reporting scan and that of
  the seeding scan return the state they were given (nothing written, nothing inserted,
  the count of new files unchanged), and a scan of a directory gives the same result as
  a scan of the directory with all dot entries removed.
\<close>

theorem dot_entries_never_reported:
  "(d_name e = CHR ''.'' # cs \<longrightarrow>
      scan_entry dirpath nt e (st, found) = (st, found) \<and> seed_entry dirpath e st = st) \<and>
   scan_and_report dirpath nt (Some (filter (\<lambda>e. \<not> dot_name e) es)) st =
     scan_and_report dirpath nt (Some es) st \<and>
   seed_scan dirpath (Some (filter (\<lambda>e. \<not> dot_name e) es)) st =
     seed_scan dirpath (Some es) st \<and>
   dot_name e = (\<exists>cs. d_name e = CHR ''.'' # cs)"
proof -
  have dot: "dot_name e = (\<exists>cs. d_name e = CHR ''.'' # cs)"
    by (cases "d_name e") (simp_all add: dot_name_def)
  have "scan_entry dirpath nt e (st, found) = (st, found) \<and> seed_entry dirpath e st = st"
    if "d_name e = CHR ''.'' # cs"
  proof -
    from that dot have "\<not> visible_regular e"
      by (simp add: dot_not_visible)
    then show ?thesis
      by (simp add: scan_entry_skip seed_entry_skip)
  qed
  with dot show ?thesis
    by (simp add: scan_and_report_def seed_scan_def scan_loop_filter_dot seed_loop_filter_dot)
qed

theorem dot_entries_never_reported_witness:
  "d_name (regular_file ''.hidden'' 13) = CHR ''.'' # ''hidden'' \<and>
   scan_entry ''D'' False (regular_file ''.hidden'' 13) (init_state, 0) = (init_state, 0) \<and>
   seed_entry ''D'' (regular_file ''.hidden'' 13) init_state = init_state \<and>
   scan_and_report ''D'' False (Some [regular_file ''a.png'' 12]) init_state =
     scan_and_report ''D'' False
       (Some [regular_file ''.hidden'' 13, regular_file ''a.png'' 12]) init_state"
  using dot_entries_never_reported [where e = "regular_file ''.hidden'' 13"
      and cs = "''hidden''" and dirpath = "''D''" and nt = False and st = init_state
      and found = 0 and es = "[regular_file ''.hidden'' 13, regular_file ''a.png'' 12]"]
  by (simp add: regular_file_def dot_name_def)

text \<open>
  C10. When \<^verbatim>\<open>opendir\<close> fails in \<^verbatim>\<open>scan_and_report\<close> the function returns zero and
  leaves the state as it was: no output, no insertion. The event loop is not left by
  such a turn: it goes on with the next input; with no further input it is still
  running, with the state unchanged; a further notification is answered by a scan of
  the directory as it then is; and a run whose only notification met the failure is
  still watching. A failing \<^verbatim>\<open>open\<close> at startup is fatal: the diagnostic is written
  and the exit status is 1.
\<close>

theorem scan_opendir_failure_not_fatal:
  "scan_and_report dirpath nt None st = (st, 0) \<and>
   (0 < n \<longrightarrow>
      event_loop dirpath nt errtext (Kevent n errno None # rest) st =
        event_loop dirpath nt errtext rest st) \<and>
   (0 < n \<longrightarrow> event_loop dirpath nt errtext [Kevent n errno None] st = (st, False)) \<and>
   (0 < n \<and> 0 < m \<longrightarrow>
      event_loop dirpath nt errtext [Kevent n errno None, Kevent m errno' dir] st =
        (fst (scan_and_report dirpath nt dir st), False)) \<and>
   (0 < n \<and> 0 \<le> fst (open_ret ev) \<and> 0 \<le> fst (kqueue_ret ev) \<and>
    0 \<le> fst (register_ret ev) \<and> loop_inputs ev = [Kevent n errno None] \<longrightarrow>
      run_watcher dirpath nt ev st =
        (seed_scan dirpath (seed_dir ev)
           (st\<lparr>fds := fst (kqueue_ret ev) # fst (open_ret ev) # fds st\<rparr>), Watching)) \<and>
   (fst (open_ret ev) < 0 \<longrightarrow>
      run_watcher dirpath nt ev st =
        (st\<lparr>err := err st @ ''sic-watcher: cannot open '' @ [CHR 0x27] @ dirpath @
            [CHR 0x27] @ '': '' @ strerror ev (snd (open_ret ev)) @ [CHR 0x0A]\<rparr>, Exit 1))"
  by (simp add: scan_and_report_def run_watcher_def Let_def)

theorem scan_opendir_failure_not_fatal_witness:
  "scan_and_report ''D'' False None init_state = (init_state, 0) \<and>
   (0::int) < 1 \<and>
   event_loop ''D'' False demo_strerror [Kevent 1 0 None, Signalled] init_state =
     (init_state, True) \<and>
   event_loop ''D'' False demo_strerror [Kevent 1 0 None] init_state = (init_state, False) \<and>
   event_loop ''D'' False demo_strerror
       [Kevent 1 0 None, Kevent 1 0 (Some [regular_file ''a.png'' 12])] init_state =
     (init_state\<lparr>seen := mark_seen 12 init_tracker, out := ''D/a.png'' @ [CHR 0x0A],
        reported := [(12, ''D/a.png'')]\<rparr>, False) \<and>
   0 \<le> fst (open_ret lone_failure_env) \<and> 0 \<le> fst (kqueue_ret lone_failure_env) \<and>
   0 \<le> fst (register_ret lone_failure_env) \<and>
   loop_inputs lone_failure_env = [Kevent 1 0 None] \<and>
   run_watcher ''D'' False lone_failure_env init_state =
     (init_state\<lparr>seen := mark_seen 11 init_tracker, fds := [4, 3]\<rparr>, Watching) \<and>
   main ''sic-watcher'' [''D''] retry_env =
     (\<lparr>seen = mark_seen 15 (mark_seen 12 (mark_seen 11 init_tracker)),
       out = ''D/a.png'' @ [CHR 0x0A] @ ''D/b.png'' @ [CHR 0x0A], err = [], fds = [],
       reported = [(12, ''D/a.png''), (15, ''D/b.png'')]\<rparr>, Exit 0) \<and>
   fst (open_ret noopen_env) < 0 \<and>
   run_watcher ''D'' False noopen_env init_state =
     (init_state\<lparr>err := ''sic-watcher: cannot open '' @ [CHR 0x27] @ ''D'' @ [CHR 0x27] @
        '': No such file or directory'' @ [CHR 0x0A]\<rparr>, Exit 1)"
proof -
  note t1 = scan_opendir_failure_not_fatal [where dirpath = "''D''" and nt = False
      and st = init_state and n = 1 and errno = 0 and errtext = demo_strerror
      and rest = "[Signalled]" and m = 1 and errno' = 0
      and dir = "Some [regular_file ''a.png'' 12]" and ev = lone_failure_env]
  note t2 = scan_opendir_failure_not_fatal [where dirpath = "''D''" and nt = False
      and st = init_state and ev = noopen_env]
  have scan: "fst (scan_and_report ''D'' False (Some [regular_file ''a.png'' 12]) init_state) =
      init_state\<lparr>seen := mark_seen 12 init_tracker, out := ''D/a.png'' @ [CHR 0x0A],
        reported := [(12, ''D/a.png'')]\<rparr>"
    by (simp add: run_defs tracker_eval entry_defs)
  have seed: "seed_scan ''D'' (seed_dir lone_failure_env)
      (init_state\<lparr>fds := fst (kqueue_ret lone_failure_env) #
         fst (open_ret lone_failure_env) # fds init_state\<rparr>) =
      init_state\<lparr>seen := mark_seen 11 init_tracker, fds := [4, 3]\<rparr>"
    by (simp add: run_defs lone_failure_env_def demo_env_def entry_defs)
  have env1: "0 \<le> fst (open_ret lone_failure_env) \<and> 0 \<le> fst (kqueue_ret lone_failure_env) \<and>
      0 \<le> fst (register_ret lone_failure_env) \<and>
      loop_inputs lone_failure_env = [Kevent 1 0 None]"
    by (simp add: lone_failure_env_def demo_env_def)
  have env2: "fst (open_ret noopen_env) < 0"
    by (simp add: noopen_env_def demo_env_def)
  have retry: "main ''sic-watcher'' [''D''] retry_env =
     (\<lparr>seen = mark_seen 15 (mark_seen 12 (mark_seen 11 init_tracker)),
       out = ''D/a.png'' @ [CHR 0x0A] @ ''D/b.png'' @ [CHR 0x0A], err = [], fds = [],
       reported = [(12, ''D/a.png''), (15, ''D/b.png'')]\<rparr>, Exit 0)"
    by (simp add: run_defs tracker_eval retry_env_def demo_env_def demo_dir_def entry_defs)
  have a: "scan_and_report ''D'' False None init_state = (init_state, 0)"
    using t1 by blast
  have b: "event_loop ''D'' False demo_strerror [Kevent 1 0 None, Signalled] init_state =
      (init_state, True)"
    using t1 by simp
  have c: "event_loop ''D'' False demo_strerror [Kevent 1 0 None] init_state =
      (init_state, False)"
    using t1 by simp
  have d: "event_loop ''D'' False demo_strerror
       [Kevent 1 0 None, Kevent 1 0 (Some [regular_file ''a.png'' 12])] init_state =
     (init_state\<lparr>seen := mark_seen 12 init_tracker, out := ''D/a.png'' @ [CHR 0x0A],
        reported := [(12, ''D/a.png'')]\<rparr>, False)"
    using t1 scan by simp
  have e: "run_watcher ''D'' False lone_failure_env init_state =
     (init_state\<lparr>seen := mark_seen 11 init_tracker, fds := [4, 3]\<rparr>, Watching)"
    using t1 env1 seed by simp
  have f: "run_watcher ''D'' False noopen_env init_state =
     (init_state\<lparr>err := ''sic-watcher: cannot open '' @ [CHR 0x27] @ ''D'' @ [CHR 0x27] @
        '': No such file or directory'' @ [CHR 0x0A]\<rparr>, Exit 1)"
    using t2 env2 by (simp add: noopen_env_def demo_env_def demo_strerror_def init_state_def)
  from a b c d e f env1 env2 retry show ?thesis
    by simp
qed

text \<open>
  C9, amended. An entry for which \<^verbatim>\<open>stat\<close> fails, or for which \<^verbatim>\<open>stat\<close> answers with
  a mode that is not a regular file's, changes nothing in either scan: no output, no
  diagnostic, no insertion. So a scan that does change the state met an entry that
  \<^verbatim>\<open>stat\<close> resolved to a regular file. The entry's own type plays no part: the scans
  give the same result whatever \<open>d_type\<close> is, and an entry that is not hidden, that
  \<^verbatim>\<open>stat\<close> resolves to a regular file and whose inode is not in the tracker is reported,
  also when the entry is a symbolic link.
\<close>

theorem only_stat_regular_entries_reported:
  "((stat_result e = None \<or> (\<exists>sb. stat_result e = Some sb \<and> \<not> S_ISREG (st_mode sb))) \<longrightarrow>
      scan_entry dirpath nt e (st, found) = (st, found) \<and> seed_entry dirpath e st = st) \<and>
   (scan_entry dirpath nt e (st, found) \<noteq> (st, found) \<longrightarrow>
      (\<exists>sb. stat_result e = Some sb \<and> S_ISREG (st_mode sb))) \<and>
   scan_entry dirpath nt (e\<lparr>d_type := ty\<rparr>) (st, found) = scan_entry dirpath nt e (st, found) \<and>
   seed_entry dirpath (e\<lparr>d_type := ty\<rparr>) st = seed_entry dirpath e st \<and>
   (\<not> dot_name e \<and> stat_result e = Some sb' \<and> S_ISREG (st_mode sb') \<and>
    \<not> is_seen (st_ino sb') (seen st) \<longrightarrow>
      scan_entry dirpath nt e (st, found) =
        (st\<lparr>seen := mark_seen (st_ino sb') (seen st),
            out := out st @ snprintf_path dirpath (d_name e) @ [separator nt],
            reported := reported st @ [(st_ino sb', snprintf_path dirpath (d_name e))]\<rparr>,
         found + 1))"
proof -
  have skip: "scan_entry dirpath nt e (st, found) = (st, found) \<and> seed_entry dirpath e st = st"
    if "stat_result e = None \<or> (\<exists>sb. stat_result e = Some sb \<and> \<not> S_ISREG (st_mode sb))"
  proof -
    from that have "\<not> visible_regular e"
      by (auto simp: visible_regular_def)
    then show ?thesis
      by (simp add: scan_entry_skip seed_entry_skip)
  qed
  have only: "\<exists>sb. stat_result e = Some sb \<and> S_ISREG (st_mode sb)"
    if "scan_entry dirpath nt e (st, found) \<noteq> (st, found)"
    using that skip by (cases "stat_result e") auto
  have ty1: "scan_entry dirpath nt (e\<lparr>d_type := ty\<rparr>) (st, found) =
      scan_entry dirpath nt e (st, found)"
    by (simp add: scan_entry.simps dot_name_def)
  have ty2: "seed_entry dirpath (e\<lparr>d_type := ty\<rparr>) st = seed_entry dirpath e st"
    by (simp add: seed_entry_def dot_name_def)
  have rep: "scan_entry dirpath nt e (st, found) =
        (st\<lparr>seen := mark_seen (st_ino sb') (seen st),
            out := out st @ snprintf_path dirpath (d_name e) @ [separator nt],
            reported := reported st @ [(st_ino sb', snprintf_path dirpath (d_name e))]\<rparr>,
         found + 1)"
    if "\<not> dot_name e \<and> stat_result e = Some sb' \<and> S_ISREG (st_mode sb') \<and>
      \<not> is_seen (st_ino sb') (seen st)"
    using that by (simp add: scan_entry.simps Let_def)
  from skip only ty1 ty2 rep show ?thesis
    by blast
qed

theorem only_stat_regular_entries_reported_witness:
  "stat_result (vanished_file ''tmp.png'') = None \<and>
   scan_entry ''D'' False (vanished_file ''tmp.png'') (init_state, 0) = (init_state, 0) \<and>
   seed_entry ''D'' (vanished_file ''tmp.png'') init_state = init_state \<and>
   stat_result (subdirectory ''sub'' 14) = Some \<lparr>st_mode = 0x41ED, st_ino = 14\<rparr> \<and>
   \<not> S_ISREG 0x41ED \<and>
   scan_entry ''D'' False (subdirectory ''sub'' 14) (init_state, 0) = (init_state, 0) \<and>
   seed_entry ''D'' (subdirectory ''sub'' 14) init_state = init_state \<and>
   scan_entry ''D'' False (regular_file ''a.png'' 12) (init_state, 0) \<noteq> (init_state, 0) \<and>
   \<not> dot_name (symlink_to_file ''link.png'' 21) \<and>
   stat_result (symlink_to_file ''link.png'' 21) = Some \<lparr>st_mode = 0x81A4, st_ino = 21\<rparr> \<and>
   S_ISREG 0x81A4 \<and> \<not> is_seen 21 (seen init_state) \<and>
   scan_entry ''D'' False (symlink_to_file ''link.png'' 21) (init_state, 0) =
     (init_state\<lparr>seen := mark_seen 21 init_tracker, out := ''D/link.png'' @ [CHR 0x0A],
        reported := [(21, ''D/link.png'')]\<rparr>, 1)"
proof -
  note t1 = only_stat_regular_entries_reported [where e = "vanished_file ''tmp.png''"
      and dirpath = "''D''" and nt = False and st = init_state and found = 0]
  note t2 = only_stat_regular_entries_reported [where e = "subdirectory ''sub'' 14"
      and dirpath = "''D''" and nt = False and st = init_state and found = 0]
  note t3 = only_stat_regular_entries_reported [where e = "symlink_to_file ''link.png'' 21"
      and sb' = "\<lparr>st_mode = 0x81A4, st_ino = 21\<rparr>"
      and dirpath = "''D''" and nt = False and st = init_state and found = 0]
  have a: "stat_result (vanished_file ''tmp.png'') = None"
    by (simp add: vanished_file_def)
  have b: "stat_result (subdirectory ''sub'' 14) = Some \<lparr>st_mode = 0x41ED, st_ino = 14\<rparr>"
    by (simp add: subdirectory_def)
  have c: "\<not> dot_name (symlink_to_file ''link.png'' 21)"
    by (simp add: symlink_to_file_def dot_name_def)
  have d: "stat_result (symlink_to_file ''link.png'' 21) = Some \<lparr>st_mode = 0x81A4, st_ino = 21\<rparr>"
    by (simp add: symlink_to_file_def)
  have e: "\<not> is_seen 21 (seen init_state)"
    by (simp add: init_state_def tracker_eval)
  have f: "scan_entry ''D'' False (regular_file ''a.png'' 12) (init_state, 0) \<noteq> (init_state, 0)"
    by (simp add: run_defs tracker_eval entry_defs)
  have r1: "scan_entry ''D'' False (vanished_file ''tmp.png'') (init_state, 0) = (init_state, 0) \<and>
      seed_entry ''D'' (vanished_file ''tmp.png'') init_state = init_state"
    using t1 a by blast
  have r2: "scan_entry ''D'' False (subdirectory ''sub'' 14) (init_state, 0) = (init_state, 0) \<and>
      seed_entry ''D'' (subdirectory ''sub'' 14) init_state = init_state"
    using t2 b S_ISREG_dir by auto
  have r3: "scan_entry ''D'' False (symlink_to_file ''link.png'' 21) (init_state, 0) =
     (init_state\<lparr>seen := mark_seen 21 init_tracker, out := ''D/link.png'' @ [CHR 0x0A],
        reported := [(21, ''D/link.png'')]\<rparr>, 1)"
    using t3 c d e S_ISREG_file
    by (simp add: symlink_to_file_def snprintf_path_def PATH_MAX_def separator_def init_state_def)
  from a b c d e f r1 r2 r3 S_ISREG_dir S_ISREG_file show ?thesis
    by (intro conjI) simp_all
qed

text \<open>
  C9 as stated fails for symbolic links: \<^verbatim>\<open>stat\<close> follows the link, so a link to a
  regular file is reported, under the link's path and with the target's inode.
\<close>

theorem symlink_reported_counterexample:
  "d_type (symlink_to_file ''link.png'' 21) = DT_LNK \<and>
   scan_and_report ''D'' False (Some [symlink_to_file ''link.png'' 21]) init_state =
     (\<lparr>seen = mark_seen 21 init_tracker, out = ''D/link.png'' @ [CHR 0x0A], err = [], fds = [],
       reported = [(21, ''D/link.png'')]\<rparr>, 1)"
  by (simp add: run_defs tracker_eval entry_defs)


section \<open>Properties of the main program\<close>

text \<open>What the argument loop computes.\<close>

lemma parse_args_eq:
  "parse_args as (nt, d) =
     (if \<exists>a\<in>set as. unrecognised a then None
      else Some (nt \<or> ''-0'' \<in> set as,
                 if filter positional as = [] then d else Some (last (filter positional as))))"
proof (induction as arbitrary: nt d)
  case Nil
  then show ?case by simp
next
  case (Cons a as)
  show ?case
  proof (cases "a = ''-0''")
    case True
    then have "\<not> unrecognised a" "\<not> positional a"
      by (simp_all add: unrecognised_def positional_def)
    with True Cons.IH [of True d] show ?thesis by auto
  next
    case no_flag: False
    show ?thesis
    proof (cases "case a of [] \<Rightarrow> False | c # cs \<Rightarrow> c = CHR ''-''")
      case True
      with no_flag have "unrecognised a"
        by (simp add: unrecognised_def)
      with no_flag True show ?thesis by simp
    next
      case False
      then have "\<not> unrecognised a" "positional a"
        by (simp_all add: unrecognised_def positional_def split: list.splits)
      with no_flag False Cons.IH [of nt "Some a"] show ?thesis by auto
    qed
  qed
qed

lemma main_usage:
  assumes "(\<exists>a\<in>set args. unrecognised a) \<or> filter positional args = []"
  shows "main progname args ev = (init_state\<lparr>err := usage_text progname\<rparr>, Exit 1)"
  using assms by (auto simp: main_def parse_args_eq usage_def init_state_def)

lemma main_run:
  assumes "\<not> (\<exists>a\<in>set args. unrecognised a)" and "filter positional args \<noteq> []"
  shows "main progname args ev =
           run_watcher (last (filter positional args)) (''-0'' \<in> set args) ev init_state"
  using assms by (simp add: main_def parse_args_eq)

text \<open>
  C4, amended. A command line without a positional argument, or with an argument that
  begins with a dash and is not \<^verbatim>\<open>-0\<close>, gets the usage text on the error stream and
  exit status 1, with nothing opened and nothing written to standard output. Every
  other command line goes on to open and watch the directory named by its last
  positional argument, null-terminated exactly when \<^verbatim>\<open>-0\<close> occurs among the
  arguments; so watching is reached only with at least one positional argument and no
  unrecognised flag.
\<close>

theorem usage_only_without_directory_or_with_bad_flag:
  "((\<exists>a\<in>set args. unrecognised a) \<or> filter positional args = [] \<longrightarrow>
      main progname args ev = (init_state\<lparr>err := usage_text progname\<rparr>, Exit 1)) \<and>
   (\<not> (\<exists>a\<in>set args. unrecognised a) \<and> filter positional args \<noteq> [] \<longrightarrow>
      main progname args ev =
        run_watcher (last (filter positional args)) (''-0'' \<in> set args) ev init_state) \<and>
   (snd (main progname args ev) = Watching \<longrightarrow>
      \<not> (\<exists>a\<in>set args. unrecognised a) \<and> filter positional args \<noteq> [])"
proof -
  have "snd (main progname args ev) \<noteq> Watching"
    if "(\<exists>a\<in>set args. unrecognised a) \<or> filter positional args = []"
    using main_usage [OF that, of progname ev] by simp
  then show ?thesis
    using main_usage [of args progname ev] main_run [of args progname ev] by blast
qed

theorem usage_only_without_directory_or_with_bad_flag_witness:
  "filter positional [''-0''] = [] \<and>
   main ''sic-watcher'' [''-0''] demo_env =
     (init_state\<lparr>err := ''Usage: sic-watcher [-0] <directory>'' @ [CHR 0x0A] @
        ''  -0    Null-terminated output'' @ [CHR 0x0A]\<rparr>, Exit 1) \<and>
   unrecognised ''-v'' \<and>
   main ''sic-watcher'' [''D'', ''-v''] demo_env =
     (init_state\<lparr>err := ''Usage: sic-watcher [-0] <directory>'' @ [CHR 0x0A] @
        ''  -0    Null-terminated output'' @ [CHR 0x0A]\<rparr>, Exit 1) \<and>
   \<not> unrecognised ''D'' \<and> \<not> unrecognised ''-0'' \<and>
   filter positional [''D'', ''-0''] = [''D''] \<and>
   main ''sic-watcher'' [''D'', ''-0''] watching_env =
     run_watcher ''D'' True watching_env init_state \<and>
   snd (main ''sic-watcher'' [''D'', ''-0''] watching_env) = Watching"
proof -
  have a: "filter positional [''-0''] = []"
    by (simp add: positional_def)
  have b: "unrecognised ''-v''"
    by (simp add: unrecognised_def)
  have c: "\<not> unrecognised ''D''" "\<not> unrecognised ''-0''"
    by (simp_all add: unrecognised_def)
  have d: "filter positional [''D'', ''-0''] = [''D'']"
    by (simp add: positional_def)
  have w: "snd (run_watcher ''D'' True watching_env init_state) = Watching"
    by (simp add: run_defs tracker_eval watching_env_def demo_env_def demo_dir_def entry_defs)
  note t1 = usage_only_without_directory_or_with_bad_flag
    [where args = "[''-0'']" and progname = "''sic-watcher''" and ev = demo_env]
  note t2 = usage_only_without_directory_or_with_bad_flag
    [where args = "[''D'', ''-v'']" and progname = "''sic-watcher''" and ev = demo_env]
  note t3 = usage_only_without_directory_or_with_bad_flag
    [where args = "[''D'', ''-0'']" and progname = "''sic-watcher''" and ev = watching_env]
  have b': "\<exists>a\<in>set [''D'', ''-v'']. unrecognised a"
    using b by simp
  have c': "\<not> (\<exists>a\<in>set [''D'', ''-0'']. unrecognised a)"
    using c by simp
  have d': "filter positional [''D'', ''-0''] \<noteq> []"
    unfolding d by simp
  have u1: "main ''sic-watcher'' [''-0''] demo_env =
      (init_state\<lparr>err := usage_text ''sic-watcher''\<rparr>, Exit 1)"
    by (rule t1 [THEN conjunct1, rule_format, OF disjI2, OF a])
  have u2: "main ''sic-watcher'' [''D'', ''-v''] demo_env =
      (init_state\<lparr>err := usage_text ''sic-watcher''\<rparr>, Exit 1)"
    by (rule t2 [THEN conjunct1, rule_format, OF disjI1, OF b'])
  have u3: "main ''sic-watcher'' [''D'', ''-0''] watching_env =
      run_watcher ''D'' True watching_env init_state"
    using t3 [THEN conjunct2, THEN conjunct1, rule_format, OF conjI, OF c' d']
    unfolding d by simp
  have ut: "usage_text ''sic-watcher'' = ''Usage: sic-watcher [-0] <directory>'' @ [CHR 0x0A] @
        ''  -0    Null-terminated output'' @ [CHR 0x0A]"
    by (simp add: usage_text_def)
  from w u3 have w': "snd (main ''sic-watcher'' [''D'', ''-0''] watching_env) = Watching"
    by (simp only:)
  from u1 u2 u3 a b c d w' show ?thesis
    unfolding ut by (intro conjI)
qed

text \<open>
  C4 as stated fails: with two positional arguments there is no usage error. The loop
  keeps the last one, and the program opens it, seeds, scans and is watching.
\<close>

theorem two_directories_counterexample:
  "filter positional [''A'', ''B''] = [''A'', ''B''] \<and>
   main ''sic-watcher'' [''A'', ''B''] watching_env =
     (\<lparr>seen = mark_seen 15 (mark_seen 12 (mark_seen 11 init_tracker)),
       out = ''B/a.png'' @ [CHR 0x0A] @ ''B/b.png'' @ [CHR 0x0A], err = [], fds = [4, 3],
       reported = [(12, ''B/a.png''), (15, ''B/b.png'')]\<rparr>, Watching)"
  by (simp add: run_defs tracker_eval watching_env_def demo_env_def demo_dir_def entry_defs
      positional_def)

text \<open>
  C2. The claim asks for a non-zero exit status after a fatal wait error. In the run
  below \<^verbatim>\<open>kevent\<close> first times out, then is interrupted, then fails with \<^verbatim>\<open>ENOMEM\<close>:
  the loop is left, the diagnostic is on the error stream, both descriptors are closed,
  and the exit status is 0.
\<close>

theorem fatal_wait_error_exits_zero:
  "main ''sic-watcher'' [''D''] fatal_wait_env =
     (\<lparr>seen = mark_seen 11 init_tracker, out = [],
       err = ''sic-watcher: kevent wait: Cannot allocate memory'' @ [CHR 0x0A], fds = [],
       reported = []\<rparr>, Exit 0)"
  by (simp add: run_defs tracker_eval fatal_wait_env_def demo_env_def entry_defs
      demo_strerror_def)

text \<open>
  C3. The claim asks that an identity is inserted only when the membership test has just
  failed. The seeding scan inserts without testing: for a directory with two names of
  one file the identity is already present when the second name is met, and it is
  inserted again, so the tracker holds it twice.
\<close>

theorem seed_scan_inserts_duplicates:
  "is_seen 77 (seen (seed_entry ''D'' (regular_file ''a.png'' 77) init_state)) \<and>
   contents (seen (seed_scan ''D'' (Some hardlink_dir) init_state)) = [77, 77] \<and>
   seed_scan ''D'' (Some hardlink_dir) init_state =
     init_state\<lparr>seen := mark_seen 77 (mark_seen 77 init_tracker)\<rparr>"
  by (simp add: run_defs tracker_eval hardlink_dir_def entry_defs)

section \<open>Properties of whole runs\<close>

lemma seed_loop_io:
  "out (seed_loop d es st) = out st \<and> err (seed_loop d es st) = err st \<and>
   fds (seed_loop d es st) = fds st \<and> reported (seed_loop d es st) = reported st"
  by (induction es arbitrary: st) (simp_all add: seed_entry_def split: option.splits)

lemma seed_scan_io:
  "out (seed_scan d dir st) = out st \<and> err (seed_scan d dir st) = err st \<and>
   fds (seed_scan d dir st) = fds st \<and> reported (seed_scan d dir st) = reported st"
  by (cases dir) (simp_all add: seed_scan_def seed_loop_io)

text \<open>
  The two ways through \<^verbatim>\<open>main\<close> after the arguments: a startup failure, which touches
  only the error stream and the descriptors, or the seeding scan followed by the event
  loop, after which only the descriptors change.
\<close>

lemma run_watcher_shape:
  fixes d nt ev st
  defines "rw \<equiv> fst (run_watcher d nt ev st)"
    and "st4 \<equiv> fst (event_loop d nt (strerror ev) (loop_inputs ev)
         (seed_scan d (seed_dir ev)
            (st\<lparr>fds := fst (kqueue_ret ev) # fst (open_ret ev) # fds st\<rparr>)))"
  shows "(seen rw = seen st \<and> out rw = out st \<and> reported rw = reported st) \<or>
         (seen rw = seen st4 \<and> out rw = out st4 \<and> reported rw = reported st4)"
proof (cases "fst (open_ret ev) < 0 \<or> fst (kqueue_ret ev) < 0 \<or> fst (register_ret ev) < 0")
  case True
  then have "seen rw = seen st \<and> out rw = out st \<and> reported rw = reported st"
    by (auto simp: rw_def run_watcher_def Let_def perror_def close_fd_def)
  then show ?thesis ..
next
  case False
  obtain s b where el: "event_loop d nt (strerror ev) (loop_inputs ev)
         (seed_scan d (seed_dir ev)
            (st\<lparr>fds := fst (kqueue_ret ev) # fst (open_ret ev) # fds st\<rparr>)) = (s, b)"
    by (cases "event_loop d nt (strerror ev) (loop_inputs ev)
         (seed_scan d (seed_dir ev)
            (st\<lparr>fds := fst (kqueue_ret ev) # fst (open_ret ev) # fds st\<rparr>))")
  have "seen rw = seen st4 \<and> out rw = out st4 \<and> reported rw = reported st4"
    using False el
    by (cases b) (simp_all add: rw_def st4_def run_watcher_def Let_def close_fd_def)
  then show ?thesis ..
qed

lemma out_matches_log_body:
  assumes "out_matches_log nt st"
  shows "out_matches_log nt (fst (scan_entry d nt e (st, f)))"
proof (cases rule: scan_entry_cases [of d nt e st f])
  case skip
  with assms show ?thesis by simp
next
  case (report sb)
  with assms show ?thesis by (simp add: out_matches_log_def)
qed

lemma out_matches_log_run:
  assumes "out_matches_log nt st"
  shows "out_matches_log nt (fst (run_watcher d nt ev st))"
proof -
  let ?st2 = "st\<lparr>fds := fst (kqueue_ret ev) # fst (open_ret ev) # fds st\<rparr>"
  let ?st3 = "seed_scan d (seed_dir ev) ?st2"
  have "out_matches_log nt ?st3"
    using assms by (simp add: out_matches_log_def seed_scan_io)
  then have "out_matches_log nt (fst (event_loop d nt (strerror ev) (loop_inputs ev) ?st3))"
    by (rule event_loop_preserves [where P = "out_matches_log nt", rotated 2])
       (simp_all add: out_matches_log_body, simp add: out_matches_log_def)
  with assms run_watcher_shape [of d nt ev st] show ?thesis
    by (auto simp: out_matches_log_def)
qed

text \<open>
  C7. In every run, standard output is exactly the sequence of reported paths, each
  followed by one separator byte and nothing else: the null byte when \<^verbatim>\<open>-0\<close> is among
  the arguments, the newline otherwise. With \<^verbatim>\<open>-0\<close> no newline is written after a
  path; each path is the one \<^verbatim>\<open>snprintf\<close> built for the entry.
\<close>

theorem separator_correct:
  assumes "main progname args ev = (st, oc)"
  shows "out st =
           concat (map (\<lambda>r. snd r @ [if ''-0'' \<in> set args then CHR 0x00 else CHR 0x0A])
             (reported st))"
proof -
  have init: "out_matches_log nt init_state" for nt
    by (simp add: out_matches_log_def init_state_def)
  have "out_matches_log (''-0'' \<in> set args) (fst (main progname args ev))"
  proof (cases "(\<exists>a\<in>set args. unrecognised a) \<or> filter positional args = []")
    case True
    then show ?thesis
      by (simp add: main_usage out_matches_log_def init_state_def)
  next
    case False
    then have "main progname args ev =
        run_watcher (last (filter positional args)) (''-0'' \<in> set args) ev init_state"
      by (simp add: main_run)
    then show ?thesis
      by (simp add: out_matches_log_run init)
  qed
  with assms show ?thesis
    by (simp add: out_matches_log_def separator_def)
qed

theorem separator_correct_witness:
  "main ''sic-watcher'' [''-0'', ''D''] demo_env =
     (\<lparr>seen = mark_seen 15 (mark_seen 12 (mark_seen 11 init_tracker)),
       out = ''D/a.png'' @ [CHR 0x00] @ ''D/b.png'' @ [CHR 0x00], err = [], fds = [],
       reported = [(12, ''D/a.png''), (15, ''D/b.png'')]\<rparr>, Exit 0) \<and>
   ''D/a.png'' @ [CHR 0x00] @ ''D/b.png'' @ [CHR 0x00] =
     concat (map (\<lambda>r. snd r @ [CHR 0x00]) [(12::ino_t, ''D/a.png''), (15, ''D/b.png'')]) \<and>
   main ''sic-watcher'' [''D''] demo_env =
     (\<lparr>seen = mark_seen 15 (mark_seen 12 (mark_seen 11 init_tracker)),
       out = ''D/a.png'' @ [CHR 0x0A] @ ''D/b.png'' @ [CHR 0x0A], err = [], fds = [],
       reported = [(12, ''D/a.png''), (15, ''D/b.png'')]\<rparr>, Exit 0) \<and>
   ''D/a.png'' @ [CHR 0x0A] @ ''D/b.png'' @ [CHR 0x0A] =
     concat (map (\<lambda>r. snd r @ [CHR 0x0A]) [(12::ino_t, ''D/a.png''), (15, ''D/b.png'')])"
  using separator_correct [OF demo_run] separator_correct [OF demo_run_newline]
    demo_run demo_run_newline
  by simp


text \<open>The shape of the tracker is kept by both scans, hence by every run.\<close>

lemma tracker_ok_body:
  assumes "tracker_ok (seen st)"
  shows "tracker_ok (seen (fst (scan_entry d nt e (st, f))))"
  using assms
  by (cases rule: scan_entry_cases [of d nt e st f]) (simp_all add: tracker_ok_mark_seen)

lemma tracker_ok_seed_entry: "tracker_ok (seen st) \<Longrightarrow> tracker_ok (seen (seed_entry d e st))"
  by (simp add: seed_entry_def tracker_ok_mark_seen split: option.splits)

lemma tracker_ok_seed_loop: "tracker_ok (seen st) \<Longrightarrow> tracker_ok (seen (seed_loop d es st))"
  by (induction es arbitrary: st) (simp_all add: tracker_ok_seed_entry)

lemma tracker_ok_seed_scan: "tracker_ok (seen st) \<Longrightarrow> tracker_ok (seen (seed_scan d dir st))"
  by (cases dir) (simp_all add: seed_scan_def tracker_ok_seed_loop)

lemma tracker_ok_run:
  assumes "tracker_ok (seen st)"
  shows "tracker_ok (seen (fst (run_watcher d nt ev st)))"
proof -
  let ?st3 = "seed_scan d (seed_dir ev)
    (st\<lparr>fds := fst (kqueue_ret ev) # fst (open_ret ev) # fds st\<rparr>)"
  have "tracker_ok (seen ?st3)"
    using assms by (simp add: tracker_ok_seed_scan)
  then have "tracker_ok (seen (fst (event_loop d nt (strerror ev) (loop_inputs ev) ?st3)))"
    by (rule event_loop_preserves [where P = "\<lambda>s. tracker_ok (seen s)", rotated 2])
       (simp_all add: tracker_ok_body)
  with assms run_watcher_shape [of d nt ev st] show ?thesis
    by auto
qed

lemma tracker_ok_main: "tracker_ok (seen (fst (main progname args ev)))"
proof (cases "(\<exists>a\<in>set args. unrecognised a) \<or> filter positional args = []")
  case True
  then show ?thesis
    by (simp add: main_usage init_state_def tracker_ok_init)
next
  case False
  then have "main progname args ev =
      run_watcher (last (filter positional args)) (''-0'' \<in> set args) ev init_state"
    by (simp add: main_run)
  then show ?thesis
    by (simp add: tracker_ok_run init_state_def tracker_ok_init)
qed

text \<open>
  C5. Whatever sequence of membership tests and insertions is applied to the empty
  tracker, and after each operation of the sequence, the number of entries the tracker
  holds is at most the capacity \<open>MAX_SEEN = 4096\<close>. The same bound holds for the
  tracker at the end of every run of the program.
\<close>

theorem tracker_never_exceeds_capacity:
  "MAX_SEEN = 4096 \<and>
   seen_count (run_ops (take k ps) init_tracker) \<le> 4096 \<and>
   length (contents (run_ops (take k ps) init_tracker)) \<le> 4096 \<and>
   seen_count (seen (fst (main progname args ev))) \<le> 4096"
proof -
  have "tracker_ok (seen (fst (main progname args ev)))"
    by (rule tracker_ok_main)
  then have run: "seen_count (seen (fst (main progname args ev))) \<le> MAX_SEEN"
    by (simp add: tracker_ok_def)
  have ok: "tracker_ok (run_ops (take k ps) init_tracker)"
    by (rule tracker_ok_run_ops) (rule tracker_ok_init)
  then have "seen_count (run_ops (take k ps) init_tracker) \<le> MAX_SEEN"
    by (simp add: tracker_ok_def)
  with ok run show ?thesis
    by (simp add: length_contents MAX_SEEN_def)
qed


section \<open>Reports and eviction\<close>

lemma file_ino_inj: "m < 5000 \<Longrightarrow> n < 5000 \<Longrightarrow> (file_ino m = file_ino n) = (m = n)"
  by (simp add: file_ino_def word_of_nat_eq_iff take_bit_nat_eq_self)

lemma recent_suffix_step:
  assumes c: "c = pre @ drop (length r - k) r" and le: "length c \<le> k" and k: "0 < k"
  shows "\<exists>pre'. (if length c < k then c @ [x] else tl c @ [x]) =
           pre' @ drop (length (r @ [x]) - k) (r @ [x])"
proof (cases "length r < k")
  case True
  then have d: "drop (length r - k) r = r" "drop (length (r @ [x]) - k) (r @ [x]) = r @ [x]"
    by simp_all
  show ?thesis
  proof (cases "length c < k")
    case True
    then show ?thesis using c d by simp
  next
    case False
    with le have "length c = k" by simp
    with c d \<open>length r < k\<close> have "pre \<noteq> []" by auto
    then have "tl c = tl pre @ r" using c d by simp
    with False d show ?thesis by simp
  qed
next
  case False
  then have kr: "k \<le> length r" by simp
  then have "length (drop (length r - k) r) = k" by simp
  with c le have pre: "pre = []" and full: "length c = k" by auto
  have "drop (length (r @ [x]) - k) (r @ [x]) = drop (Suc (length r - k)) r @ [x]"
    using kr k by (simp add: Suc_diff_le)
  also have "drop (Suc (length r - k)) r = tl (drop (length r - k) r)"
    by (simp add: drop_Suc tl_drop)
  finally have "drop (length (r @ [x]) - k) (r @ [x]) = tl c @ [x]"
    using c pre by simp
  with full show ?thesis by simp
qed

lemma recent_in_drop:
  assumes "i < length r" and "n \<le> i"
  shows "r ! i \<in> set (drop n r)"
proof -
  have "drop n r ! (i - n) = r ! i" and "i - n < length (drop n r)"
    using assms by simp_all
  then show ?thesis by (metis nth_mem)
qed

lemma recent_reports_inv_body:
  assumes "recent_reports_inv st"
  shows "recent_reports_inv (fst (scan_entry d nt e (st, f)))"
proof (cases rule: scan_entry_cases [of d nt e st f])
  case skip
  with assms show ?thesis by simp
next
  case (report sb)
  let ?x = "st_ino sb"
  let ?r = "map fst (reported st)"
  let ?c = "contents (seen st)"
  let ?st' = "fst (scan_entry d nt e (st, f))"
  from assms have ok: "tracker_ok (seen st)"
    by (simp add: recent_reports_inv_def)
  from assms obtain pre where suf: "?c = pre @ drop (length ?r - MAX_SEEN) ?r"
    by (auto simp: recent_reports_inv_def)
  from assms have sep: "\<And>i j. i < j \<Longrightarrow> j < length (reported st) \<Longrightarrow>
      fst (reported st ! i) = fst (reported st ! j) \<Longrightarrow> MAX_SEEN < j - i"
    unfolding recent_reports_inv_def by blast
  from report ok have fresh: "?x \<notin> set ?c"
    by (simp add: is_seen_iff)
  have rep': "reported ?st' = reported st @ [(?x, snprintf_path d (d_name e))]"
    using report by simp
  have c': "contents (seen ?st') = (if length ?c < MAX_SEEN then ?c @ [?x] else tl ?c @ [?x])"
    using report ok by (simp add: contents_mark_seen)
  have ok': "tracker_ok (seen ?st')"
    using report ok by (simp add: tracker_ok_mark_seen)
  have lc: "length ?c \<le> MAX_SEEN"
    using ok by (simp add: length_contents tracker_ok_def)
  from recent_suffix_step [OF suf lc MAX_SEEN_pos, of ?x]
  have suf': "\<exists>pre'. contents (seen ?st') =
      pre' @ drop (length (reported ?st') - MAX_SEEN) (map fst (reported ?st'))"
    by (simp add: c' rep')
  have sep': "MAX_SEEN < j - i"
    if ij: "i < j" and j: "j < length (reported ?st')"
      and eq: "fst (reported ?st' ! i) = fst (reported ?st' ! j)" for i j
  proof (cases "j < length (reported st)")
    case True
    with ij eq have "fst (reported st ! i) = fst (reported st ! j)"
      by (simp add: rep' nth_append)
    with ij True show ?thesis by (rule sep)
  next
    case False
    with j have jl: "j = length (reported st)"
      by (simp add: rep')
    with ij eq have xi: "?r ! i = ?x"
      by (simp add: rep' nth_append)
    show ?thesis
    proof (rule ccontr)
      assume "\<not> MAX_SEEN < j - i"
      with jl ij have "length ?r - MAX_SEEN \<le> i" and "i < length ?r"
        by simp_all
      then have "?r ! i \<in> set (drop (length ?r - MAX_SEEN) ?r)"
        using recent_in_drop by blast
      with suf have "?r ! i \<in> set ?c"
        by simp
      with xi fresh show False by simp
    qed
  qed
  from ok' suf' sep' show ?thesis
    unfolding recent_reports_inv_def by blast
qed

lemma recent_reports_inv_run:
  "recent_reports_inv (fst (run_watcher d nt ev init_state))"
proof -
  let ?st2 = "init_state\<lparr>fds := fst (kqueue_ret ev) # fst (open_ret ev) # fds init_state\<rparr>"
  let ?st3 = "seed_scan d (seed_dir ev) ?st2"
  let ?st4 = "fst (event_loop d nt (strerror ev) (loop_inputs ev) ?st3)"
  let ?rw = "fst (run_watcher d nt ev init_state)"
  have "tracker_ok (seen ?st3)"
    by (simp add: tracker_ok_seed_scan init_state_def tracker_ok_init)
  moreover have "reported ?st3 = []"
    by (simp add: seed_scan_io init_state_def)
  ultimately have "recent_reports_inv ?st3"
    by (simp add: recent_reports_inv_def)
  then have inv: "recent_reports_inv ?st4"
    by (rule event_loop_preserves [where P = recent_reports_inv, rotated 2])
       (simp_all add: recent_reports_inv_body, simp add: recent_reports_inv_def)
  have init: "recent_reports_inv init_state"
    by (simp add: recent_reports_inv_def init_state_def tracker_ok_init)
  from run_watcher_shape [of d nt ev init_state]
  have "(seen ?rw = seen init_state \<and> reported ?rw = reported init_state) \<or>
        (seen ?rw = seen ?st4 \<and> reported ?rw = reported ?st4)"
    by blast
  then show ?thesis
  proof
    assume "seen ?rw = seen init_state \<and> reported ?rw = reported init_state"
    with init show ?thesis by (simp add: recent_reports_inv_def)
  next
    assume "seen ?rw = seen ?st4 \<and> reported ?rw = reported ?st4"
    with inv show ?thesis by (simp add: recent_reports_inv_def)
  qed
qed

lemma recent_reports_inv_main: "recent_reports_inv (fst (main progname args ev))"
proof (cases "(\<exists>a\<in>set args. unrecognised a) \<or> filter positional args = []")
  case True
  then show ?thesis
    by (simp add: main_usage recent_reports_inv_def init_state_def tracker_ok_init)
next
  case False
  then have "main progname args ev =
      run_watcher (last (filter positional args)) (''-0'' \<in> set args) ev init_state"
    by (simp add: main_run)
  then show ?thesis
    by (simp add: recent_reports_inv_run)
qed

text \<open>
  A run that evicts: it starts on an empty directory and scans 4097 new files twice.
  The first scan reports them all; inserting the last one evicts the first one. The
  second scan then finds the first file unknown and reports its inode again.
\<close>

lemma scan_numbered_fresh:
  assumes "tracker_ok (seen st)" and "file_ino n \<notin> set (contents (seen st))"
  shows "\<exists>p. scan_entry d nt (numbered_file n) (st, f) =
           (st\<lparr>seen := mark_seen (file_ino n) (seen st),
               out := out st @ p @ [separator nt],
               reported := reported st @ [(file_ino n, p)]\<rparr>, f + 1)"
proof -
  have "scan_entry d nt (numbered_file n) (st, f) =
           (st\<lparr>seen := mark_seen (file_ino n) (seen st),
               out := out st @ snprintf_path d (d_name (numbered_file n)) @ [separator nt],
               reported := reported st @
                 [(file_ino n, snprintf_path d (d_name (numbered_file n)))]\<rparr>, f + 1)"
    using assms
    by (simp add: scan_entry.simps numbered_file_def regular_file_def dot_name_def S_ISREG_file
        is_seen_iff Let_def)
  then show ?thesis ..
qed

lemma scan_fresh_files:
  assumes "tracker_ok (seen st)" and "distinct ns" and "\<forall>n\<in>set ns. n < 5000"
    and "\<forall>n\<in>set ns. file_ino n \<notin> set (contents (seen st))"
    and "length (contents (seen st)) + length ns \<le> MAX_SEEN"
  shows "tracker_ok (seen (fst (scan_loop d nt (map numbered_file ns) (st, f)))) \<and>
         contents (seen (fst (scan_loop d nt (map numbered_file ns) (st, f)))) =
           contents (seen st) @ map file_ino ns \<and>
         map fst (reported (fst (scan_loop d nt (map numbered_file ns) (st, f)))) =
           map fst (reported st) @ map file_ino ns"
  using assms
proof (induction ns arbitrary: st f)
  case Nil
  then show ?case by simp
next
  case (Cons n ns)
  from Cons.prems have fresh: "file_ino n \<notin> set (contents (seen st))"
    by simp
  from scan_numbered_fresh [OF Cons.prems(1) fresh, of d nt f]
  obtain p where step: "scan_entry d nt (numbered_file n) (st, f) =
           (st\<lparr>seen := mark_seen (file_ino n) (seen st),
               out := out st @ p @ [separator nt],
               reported := reported st @ [(file_ino n, p)]\<rparr>, f + 1)"
    by blast
  let ?st' = "st\<lparr>seen := mark_seen (file_ino n) (seen st),
               out := out st @ p @ [separator nt],
               reported := reported st @ [(file_ino n, p)]\<rparr>"
  from Cons.prems(5) have "length (contents (seen st)) < MAX_SEEN"
    by simp
  then have c0: "contents (mark_seen (file_ino n) (seen st)) = contents (seen st) @ [file_ino n]"
    using Cons.prems(1) by (simp add: contents_mark_seen)
  then have c: "contents (seen ?st') = contents (seen st) @ [file_ino n]"
    by simp
  have ok: "tracker_ok (seen ?st')"
    using Cons.prems(1) by (simp add: tracker_ok_mark_seen)
  have others: "\<forall>m\<in>set ns. file_ino m \<notin> set (contents (seen ?st'))"
  proof
    fix m
    assume m: "m \<in> set ns"
    with Cons.prems(2) have "m \<noteq> n" by auto
    moreover from m Cons.prems(3) have "m < 5000" "n < 5000" by simp_all
    ultimately have "file_ino m \<noteq> file_ino n"
      by (simp add: file_ino_inj)
    moreover from m Cons.prems(4) have "file_ino m \<notin> set (contents (seen st))"
      by simp
    ultimately show "file_ino m \<notin> set (contents (seen ?st'))"
      by (simp add: c0)
  qed
  have len: "length (contents (seen ?st')) + length ns \<le> MAX_SEEN"
    using Cons.prems(5) by (simp add: c0)
  from Cons.prems have d: "distinct ns" and b: "\<forall>n\<in>set ns. n < 5000"
    by simp_all
  from Cons.IH [OF ok d b others len, of "f + 1"] step c show ?case
    by simp
qed

text \<open>The log of reports only grows.\<close>

lemma reported_grows_loop:
  "\<exists>r. reported (fst (scan_loop d nt es sf)) = reported (fst sf) @ r"
proof -
  have "(\<lambda>st. \<exists>r. reported st = reported (fst sf) @ r) (fst (scan_loop d nt es sf))"
  proof (rule scan_loop_preserves)
    fix e and st :: pstate and f :: int
    assume "\<exists>r. reported st = reported (fst sf) @ r"
    then show "\<exists>r. reported (fst (scan_entry d nt e (st, f))) = reported (fst sf) @ r"
      by (cases rule: scan_entry_cases [of d nt e st f]) auto
  next
    show "\<exists>r. reported (fst sf) = reported (fst sf) @ r" by simp
  qed
  then show ?thesis .
qed

lemma many_files_split:
  "many_files = map numbered_file [0..<MAX_SEEN] @ [numbered_file MAX_SEEN]"
  by (simp add: many_files_def MAX_SEEN_def)

lemma many_files_head:
  "many_files =
     numbered_file 0 # (map numbered_file [Suc 0..<MAX_SEEN] @ [numbered_file MAX_SEEN])"
  using MAX_SEEN_pos by (simp add: many_files_split upt_conv_Cons)

lemma first_scan_of_many_files:
  assumes "tracker_ok (seen st)" and "contents (seen st) = []" and "reported st = []"
  shows "tracker_ok (seen (fst (scan_loop d nt many_files (st, 0)))) \<and>
         contents (seen (fst (scan_loop d nt many_files (st, 0)))) =
           map file_ino [Suc 0..<MAX_SEEN] @ [file_ino MAX_SEEN] \<and>
         map fst (reported (fst (scan_loop d nt many_files (st, 0)))) =
           map file_ino [0..<MAX_SEEN] @ [file_ino MAX_SEEN]"
proof -
  obtain sa fa where a: "scan_loop d nt (map numbered_file [0..<MAX_SEEN]) (st, 0) = (sa, fa)"
    by (cases "scan_loop d nt (map numbered_file [0..<MAX_SEEN]) (st, 0)")
  have "tracker_ok (seen (fst (scan_loop d nt (map numbered_file [0..<MAX_SEEN]) (st, 0)))) \<and>
         contents (seen (fst (scan_loop d nt (map numbered_file [0..<MAX_SEEN]) (st, 0)))) =
           contents (seen st) @ map file_ino [0..<MAX_SEEN] \<and>
         map fst (reported (fst (scan_loop d nt (map numbered_file [0..<MAX_SEEN]) (st, 0)))) =
           map fst (reported st) @ map file_ino [0..<MAX_SEEN]"
    by (rule scan_fresh_files) (use assms in \<open>simp_all add: MAX_SEEN_def\<close>)
  with a assms have sa: "tracker_ok (seen sa)"
    "contents (seen sa) = map file_ino [0..<MAX_SEEN]"
    "map fst (reported sa) = map file_ino [0..<MAX_SEEN]"
    by simp_all
  have fresh: "file_ino MAX_SEEN \<notin> set (contents (seen sa))"
  proof
    assume "file_ino MAX_SEEN \<in> set (contents (seen sa))"
    then have "file_ino MAX_SEEN \<in> file_ino ` set [0..<MAX_SEEN]"
      by (simp add: sa(2))
    then obtain n where "n \<in> set [0..<MAX_SEEN]" and "file_ino MAX_SEEN = file_ino n"
      by (rule imageE)
    then show False
      by (simp add: file_ino_inj MAX_SEEN_def)
  qed
  from scan_numbered_fresh [OF sa(1) fresh, of d nt fa]
  obtain p where step: "scan_entry d nt (numbered_file MAX_SEEN) (sa, fa) =
           (sa\<lparr>seen := mark_seen (file_ino MAX_SEEN) (seen sa),
               out := out sa @ p @ [separator nt],
               reported := reported sa @ [(file_ino MAX_SEEN, p)]\<rparr>, fa + 1)"
    by blast
  have whole: "scan_loop d nt many_files (st, 0) =
      scan_entry d nt (numbered_file MAX_SEEN) (sa, fa)"
    by (simp add: many_files_split scan_loop_append a)
  have "tl (map file_ino [0..<MAX_SEEN]) = map file_ino [Suc 0..<MAX_SEEN]"
    using MAX_SEEN_pos by (simp add: upt_conv_Cons)
  then have "contents (mark_seen (file_ino MAX_SEEN) (seen sa)) =
      map file_ino [Suc 0..<MAX_SEEN] @ [file_ino MAX_SEEN]"
    using sa by (simp add: contents_mark_seen)
  with sa show ?thesis
    by (simp add: whole step tracker_ok_mark_seen)
qed

lemma second_scan_reports_first_again:
  assumes "tracker_ok (seen st)"
    and "contents (seen st) = map file_ino [Suc 0..<MAX_SEEN] @ [file_ino MAX_SEEN]"
    and "map fst (reported st) = map file_ino [0..<MAX_SEEN] @ [file_ino MAX_SEEN]"
  shows "\<exists>r. map fst (reported (fst (scan_loop d nt many_files (st, 0)))) =
           map file_ino [0..<MAX_SEEN] @ [file_ino MAX_SEEN] @ [file_ino 0] @ r"
proof -
  have fresh: "file_ino 0 \<notin> set (contents (seen st))"
  proof
    assume "file_ino 0 \<in> set (contents (seen st))"
    then have "file_ino 0 \<in> file_ino ` set ([Suc 0..<MAX_SEEN] @ [MAX_SEEN])"
      by (simp add: assms(2))
    then obtain n where "n \<in> set ([Suc 0..<MAX_SEEN] @ [MAX_SEEN])"
      and "file_ino 0 = file_ino n"
      by (rule imageE)
    then show False
      by (auto simp: file_ino_inj MAX_SEEN_def)
  qed
  from scan_numbered_fresh [OF assms(1) fresh, of d nt 0]
  obtain p where step: "scan_entry d nt (numbered_file 0) (st, 0) =
           (st\<lparr>seen := mark_seen (file_ino 0) (seen st),
               out := out st @ p @ [separator nt],
               reported := reported st @ [(file_ino 0, p)]\<rparr>, 0 + 1)"
    by blast
  let ?rest = "map numbered_file [Suc 0..<MAX_SEEN] @ [numbered_file MAX_SEEN]"
  from reported_grows_loop [of d nt ?rest "scan_entry d nt (numbered_file 0) (st, 0)"]
  obtain r where "reported (fst (scan_loop d nt many_files (st, 0))) =
      (reported st @ [(file_ino 0, p)]) @ r"
    by (auto simp: many_files_head step)
  then have "map fst (reported (fst (scan_loop d nt many_files (st, 0)))) =
      map file_ino [0..<MAX_SEEN] @ [file_ino MAX_SEEN] @ [file_ino 0] @ map fst r"
    by (simp add: assms(3))
  then show ?thesis ..
qed

lemma overflow_run:
  "reported (fst (main ''sic-watcher'' [''D''] overflow_env)) =
     reported (fst (scan_loop ''D'' False many_files
       (fst (scan_loop ''D'' False many_files
          (\<lparr>seen = init_tracker, out = [], err = [], fds = [4, 3], reported = []\<rparr>, 0)), 0)))"
  by (simp add: main_def run_watcher_def seed_scan_def scan_and_report_def close_fd_def
      overflow_env_def demo_env_def init_state_def Let_def)

text \<open>
  The reports of the run on the 4097 files: all of them in order, then the first one
  again.
\<close>

lemma overflow_reports:
  "\<exists>r. map fst (reported (fst (main ''sic-watcher'' [''D''] overflow_env))) =
         map file_ino [0..<MAX_SEEN] @ [file_ino MAX_SEEN] @ [file_ino 0] @ r"
proof -
  let ?s0 = "\<lparr>seen = init_tracker, out = [], err = [], fds = [4, 3], reported = []\<rparr>"
  let ?s1 = "fst (scan_loop ''D'' False many_files (?s0, 0))"
  have first: "tracker_ok (seen ?s1) \<and>
      contents (seen ?s1) = map file_ino [Suc 0..<MAX_SEEN] @ [file_ino MAX_SEEN] \<and>
      map fst (reported ?s1) = map file_ino [0..<MAX_SEEN] @ [file_ino MAX_SEEN]"
    by (rule first_scan_of_many_files) (simp_all add: tracker_ok_init contents_init)
  then have "\<exists>r. map fst (reported (fst (scan_loop ''D'' False many_files (?s1, 0)))) =
      map file_ino [0..<MAX_SEEN] @ [file_ino MAX_SEEN] @ [file_ino 0] @ r"
    by (intro second_scan_reports_first_again) simp_all
  then show ?thesis
    unfolding overflow_run .
qed

lemma overflow_repeat:
  "4097 < length (reported (fst (main ''sic-watcher'' [''D''] overflow_env))) \<and>
   fst (reported (fst (main ''sic-watcher'' [''D''] overflow_env)) ! 0) = 1000 \<and>
   fst (reported (fst (main ''sic-watcher'' [''D''] overflow_env)) ! 4097) = 1000"
proof -
  let ?rep = "reported (fst (main ''sic-watcher'' [''D''] overflow_env))"
  from overflow_reports obtain r where r: "map fst ?rep =
      map file_ino [0..<MAX_SEEN] @ [file_ino MAX_SEEN] @ [file_ino 0] @ r"
    by blast
  have "length (map fst ?rep) = MAX_SEEN + 2 + length r"
    unfolding r by simp
  then have len: "4097 < length ?rep"
    by (simp add: MAX_SEEN_def)
  have "map fst ?rep ! 0 = file_ino 0"
    unfolding r using MAX_SEEN_pos by (simp add: nth_append)
  moreover have "map fst ?rep ! (MAX_SEEN + 1) = file_ino 0"
    unfolding r by (simp add: nth_append)
  moreover have "0 < length ?rep"
    using len by linarith
  ultimately have "fst (?rep ! 0) = file_ino 0" and "fst (?rep ! 4097) = file_ino 0"
    using len by (simp_all add: MAX_SEEN_def)
  with len show ?thesis
    by (simp add: file_ino_def)
qed

text \<open>
  C1, amended. In every run, two reports of one inode are more than \<open>MAX_SEEN\<close>
  positions apart in the sequence of reports: an inode that has been reported is not
  reported again before at least \<open>MAX_SEEN = 4096\<close> further reports have been made. In
  particular, a run that makes at most \<open>MAX_SEEN + 1\<close> reports reports no inode twice,
  whatever the seeding scan inserted.
\<close>

theorem reported_again_only_after_eviction:
  assumes "main progname args ev = (st, oc)"
  shows "(i < j \<and> j < length (reported st) \<and> fst (reported st ! i) = fst (reported st ! j)
            \<longrightarrow> MAX_SEEN < j - i) \<and>
         (length (reported st) \<le> MAX_SEEN + 1 \<longrightarrow> distinct (map fst (reported st))) \<and>
         MAX_SEEN = 4096"
proof -
  from recent_reports_inv_main [of progname args ev] assms
  have sep: "\<And>i j. i < j \<Longrightarrow> j < length (reported st) \<Longrightarrow>
      fst (reported st ! i) = fst (reported st ! j) \<Longrightarrow> MAX_SEEN < j - i"
    unfolding recent_reports_inv_def by auto
  have "distinct (map fst (reported st))" if le: "length (reported st) \<le> MAX_SEEN + 1"
  proof -
    have "map fst (reported st) ! i \<noteq> map fst (reported st) ! j"
      if "i < j" "j < length (reported st)" for i j
    proof
      assume "map fst (reported st) ! i = map fst (reported st) ! j"
      with that have "fst (reported st ! i) = fst (reported st ! j)"
        by simp
      with that have "MAX_SEEN < j - i" by (intro sep)
      with that le show False by simp
    qed
    then have "\<And>i j. i < length (map fst (reported st)) \<Longrightarrow> j < length (map fst (reported st))
        \<Longrightarrow> i \<noteq> j \<Longrightarrow> map fst (reported st) ! i \<noteq> map fst (reported st) ! j"
      by (metis length_map nat_neq_iff)
    then show ?thesis
      unfolding distinct_conv_nth by blast
  qed
  with sep show ?thesis
    by (auto simp: MAX_SEEN_def)
qed

theorem reported_again_only_after_eviction_witness:
  "(0::nat) < 4097 \<and>
   4097 < length (reported (fst (main ''sic-watcher'' [''D''] overflow_env))) \<and>
   fst (reported (fst (main ''sic-watcher'' [''D''] overflow_env)) ! 0) =
     fst (reported (fst (main ''sic-watcher'' [''D''] overflow_env)) ! 4097) \<and>
   MAX_SEEN < 4097 - 0 \<and>
   main ''sic-watcher'' [''-0'', ''D''] demo_env =
     (\<lparr>seen = mark_seen 15 (mark_seen 12 (mark_seen 11 init_tracker)),
       out = ''D/a.png'' @ [CHR 0x00] @ ''D/b.png'' @ [CHR 0x00], err = [], fds = [],
       reported = [(12, ''D/a.png''), (15, ''D/b.png'')]\<rparr>, Exit 0) \<and>
   length [(12 :: ino_t, ''D/a.png''), (15, ''D/b.png'')] \<le> MAX_SEEN + 1 \<and>
   distinct [12 :: ino_t, 15]"
proof -
  let ?big = "main ''sic-watcher'' [''D''] overflow_env"
  have run: "?big = (fst ?big, snd ?big)"
    by simp
  from overflow_repeat have hyp: "0 < (4097::nat) \<and> 4097 < length (reported (fst ?big)) \<and>
      fst (reported (fst ?big) ! 0) = fst (reported (fst ?big) ! 4097)"
    by simp
  from reported_again_only_after_eviction [OF run, of 0 4097] hyp
  have gap: "MAX_SEEN < 4097 - 0"
    by blast
  have small: "length [(12 :: ino_t, ''D/a.png''), (15, ''D/b.png'')] \<le> MAX_SEEN + 1"
    by (simp add: MAX_SEEN_def)
  from reported_again_only_after_eviction [OF demo_run, of 0 0] small
  have "distinct [12 :: ino_t, 15]"
    by simp
  with hyp gap small demo_run show ?thesis
    by blast
qed

text \<open>
  C1 as stated fails: in the run on the 4097 files the list of reported inodes has a
  repetition.
\<close>

theorem evicted_identity_reported_again_counterexample:
  "\<not> distinct (map fst (reported (fst (main ''sic-watcher'' [''D''] overflow_env))))"
proof -
  from overflow_reports obtain r where
    "map fst (reported (fst (main ''sic-watcher'' [''D''] overflow_env))) =
      map file_ino [0..<MAX_SEEN] @ [file_ino MAX_SEEN] @ [file_ino 0] @ r"
    by blast
  moreover have "file_ino 0 \<in> set (map file_ino [0..<MAX_SEEN])"
    using MAX_SEEN_pos by simp
  ultimately show ?thesis
    by auto
qed

end
